theory Spec2Isabelle
  imports Complex_Main
begin

section \<open>Frequency axes\<close>

text \<open>
  The three programs (\<^verbatim>\<open>realtime_plot.py\<close>, the console variant; \<^verbatim>\<open>gui-untested.py\<close>,
  the basic GUI; \<^verbatim>\<open>gui_untested_too.py\<close>, the extended GUI) attach a frequency axis to
  every sweep of RSSI readings. Frequencies are Python floats in the source; here they are
  exact rationals, so the statements below are about the arithmetic the code writes down
  and not about the rounding of binary floating point. RSSI readings are Python integers,
  modelled as \<^typ>\<open>int\<close>.
\<close>

text \<open>
  \<^verbatim>\<open>numpy.linspace(start, stop, num)\<close> with its default \<^verbatim>\<open>endpoint=True\<close>, as numpy computes it:
  \<^verbatim>\<open>div = num - 1\<close>, \<^verbatim>\<open>y = arange(0, num) * (delta / div) + start\<close> when \<^verbatim>\<open>div > 0\<close>
  and \<^verbatim>\<open>arange(0, num) * delta + start\<close> otherwise, and finally \<^verbatim>\<open>y[-1] = stop\<close> when
  \<^verbatim>\<open>num > 1\<close>.
\<close>

definition linspace :: "rat \<Rightarrow> rat \<Rightarrow> nat \<Rightarrow> rat list" where
  "linspace start stop num =
     (let d = num - 1;
          delta = stop - start;
          y = map (\<lambda>i. if 0 < d then of_nat i * (delta / of_nat d) + start
                        else of_nat i * delta + start) [0..<num]
      in if 1 < num then y[num - 1 := stop] else y)"


subsection \<open>Console variant: the constants and the axis of \<^verbatim>\<open>plot_rssi_spectrum\<close>\<close>

definition START_FREQ :: rat where "START_FREQ = 2399"
definition FREQ_STEP :: rat where "FREQ_STEP = 1 / 2"
definition RSSI_MIN :: int where "RSSI_MIN = - 100"
definition RSSI_MAX :: int where "RSSI_MAX = - 40"

text \<open>
  Lines 61-62 of \<^verbatim>\<open>realtime_plot.py\<close>:
  \<^verbatim>\<open>frequencies = [START_FREQ + i * FREQ_STEP for i in range(num_points)]\<close>
  with \<^verbatim>\<open>num_points = len(rssi_values)\<close>.
\<close>

definition frequencies :: "int list \<Rightarrow> rat list" where
  "frequencies rssi_values =
     (let num_points = length rssi_values
      in map (\<lambda>i. START_FREQ + of_nat i * FREQ_STEP) [0..<num_points])"

subsection \<open>The chart widget of the two GUI variants\<close>

text \<open>
  \<^verbatim>\<open>SpectrumCanvas\<close> keeps the configured limits and the step; \<open>plotted\<close> is what the
  axes show: the frequencies and readings handed to the last \<^verbatim>\<open>ax.plot\<close>.
\<close>

record canvas =
  start_freq :: rat
  end_freq :: rat
  rssi_min :: int
  rssi_max :: int
  freq_step :: rat
  plotted :: "(rat list \<times> int list) option"

definition update_limits :: "canvas \<Rightarrow> rat \<Rightarrow> rat \<Rightarrow> int \<Rightarrow> int \<Rightarrow> rat \<Rightarrow> canvas" where
  "update_limits c sf ef rmin rmax step =
     c\<lparr>start_freq := sf, end_freq := ef, rssi_min := rmin, rssi_max := rmax,
       freq_step := step\<rparr>"

text \<open>
  Basic GUI, \<^verbatim>\<open>SpectrumCanvas.plot_rssi\<close> (lines 80-99 of \<^verbatim>\<open>gui-untested.py\<close>). The axis is
  built from the step; the code then compares its size with the number of readings and has
  a branch that truncates and a branch that falls back to \<^verbatim>\<open>np.linspace\<close>. The model
  returns the branch taken together with the axis.
\<close>

datatype axis_branch = Truncated | Interpolated | Unchanged

definition plot_rssi_axis :: "canvas \<Rightarrow> int list \<Rightarrow> axis_branch \<times> rat list" where
  "plot_rssi_axis c rssi_values =
     (let num_points = length rssi_values;
          freqs = map (\<lambda>i. start_freq c + of_nat i * freq_step c) [0..<num_points]
      in if length freqs > num_points then (Truncated, take num_points freqs)
         else if length freqs < num_points
           then (Interpolated, linspace (start_freq c) (end_freq c) num_points)
         else (Unchanged, freqs))"

definition plot_rssi_basic :: "canvas \<Rightarrow> int list \<Rightarrow> canvas" where
  "plot_rssi_basic c rssi_values =
     (if rssi_values = [] then c
      else c\<lparr>plotted := Some (snd (plot_rssi_axis c rssi_values), rssi_values)\<rparr>)"

text \<open>
  Extended GUI, \<^verbatim>\<open>SpectrumCanvas.plot_rssi\<close> (lines 84-91 of \<^verbatim>\<open>gui_untested_too.py\<close>):
  the axis is \<^verbatim>\<open>np.linspace(self.start_freq, self.end_freq, len(rssi_values))\<close>.
\<close>

definition plot_rssi_ext :: "canvas \<Rightarrow> int list \<Rightarrow> canvas" where
  "plot_rssi_ext c rssi_values =
     (if rssi_values = [] then c
      else let freqs = linspace (start_freq c) (end_freq c) (length rssi_values)
           in c\<lparr>plotted := Some (freqs, rssi_values)\<rparr>)"

text \<open>The defaults of both GUI variants (\<^verbatim>\<open>DEFAULT_START_FREQ\<close> and so on).\<close>

definition DEFAULT_START_FREQ :: rat where "DEFAULT_START_FREQ = 2399"
definition DEFAULT_END_FREQ :: rat where "DEFAULT_END_FREQ = 2485"
definition DEFAULT_FREQ_STEP :: rat where "DEFAULT_FREQ_STEP = 1 / 2"
definition DEFAULT_RSSI_MIN :: int where "DEFAULT_RSSI_MIN = - 100"
definition DEFAULT_RSSI_MAX :: int where "DEFAULT_RSSI_MAX = - 40"

definition default_canvas :: canvas where
  "default_canvas =
     \<lparr>start_freq = DEFAULT_START_FREQ, end_freq = DEFAULT_END_FREQ,
      rssi_min = DEFAULT_RSSI_MIN, rssi_max = DEFAULT_RSSI_MAX,
      freq_step = DEFAULT_FREQ_STEP, plotted = None\<rparr>"

section \<open>Console variant: the parser of the log line\<close>

text \<open>
  \<^verbatim>\<open>parse_rssi_input\<close> (lines 21-38 of \<^verbatim>\<open>realtime_plot.py\<close>) searches its input for
  \<^verbatim>\<open>Received \d+ RSSI level readings: \[(.*)\]\<close>, splits the group at commas and converts
  every piece with \<^verbatim>\<open>int\<close>. A Python string is modelled as a \<^typ>\<open>string\<close>: a list of
  characters with code points below 256. In that range \<^verbatim>\<open>\d\<close> matches the ten ASCII
  digits, the dot matches everything but the line feed, and the white space that
  \<^verbatim>\<open>int\<close> strips is the set below.
\<close>

definition is_digit :: "char \<Rightarrow> bool" where
  "is_digit c = (c \<in> set ''0123456789'')"

definition digit_val :: "char \<Rightarrow> nat" where
  "digit_val c = of_char c - 48"

definition is_space :: "char \<Rightarrow> bool" where
  "is_space c = (c \<in> set [CHR 0x09, CHR 0x0A, CHR 0x0B, CHR 0x0C, CHR 0x0D, CHR '' '',
                            CHR 0x85, CHR 0xA0])"

text \<open>A literal piece of the pattern at the start of the text; the result is what follows it.\<close>

fun strip_prefix :: "string \<Rightarrow> string \<Rightarrow> string option" where
  "strip_prefix [] s = Some s"
| "strip_prefix (p # ps) [] = None"
| "strip_prefix (p # ps) (c # cs) = (if p = c then strip_prefix ps cs else None)"

text \<open>
  The pattern matched at the start of \<open>s\<close>; the result is group 1. \<^verbatim>\<open>\d+\<close> takes the
  longest run of digits (giving a digit back cannot help: the pattern goes on with a
  space). \<^verbatim>\<open>(.*)\<close> is greedy and stays on the line, so it first takes everything up to
  the next line feed and then gives characters back until the closing bracket matches:
  the group ends before the last \<^verbatim>\<open>]\<close> of that span.
\<close>

definition match_here :: "string \<Rightarrow> string option" where
  "match_here s =
     (case strip_prefix ''Received '' s of
        None \<Rightarrow> None
      | Some s1 \<Rightarrow>
          let ds = takeWhile is_digit s1; s2 = dropWhile is_digit s1
          in if ds = [] then None
             else case strip_prefix '' RSSI level readings: ['' s2 of
                    None \<Rightarrow> None
                  | Some s3 \<Rightarrow>
                      let span = takeWhile (\<lambda>c. c \<noteq> CHR 0x0A) s3
                      in if CHR '']'' \<in> set span
                         then Some (rev (tl (dropWhile (\<lambda>c. c \<noteq> CHR '']'') (rev span))))
                         else None)"

text \<open>\<^verbatim>\<open>re.search\<close>: the match at the leftmost position that has one.\<close>

fun re_search :: "string \<Rightarrow> string option" where
  "re_search [] = match_here []"
| "re_search (c # cs) =
     (case match_here (c # cs) of Some g \<Rightarrow> Some g | None \<Rightarrow> re_search cs)"

text \<open>\<^verbatim>\<open>rssi_data.split(",")\<close>: always at least one piece, empty pieces kept.\<close>

fun split_comma :: "string \<Rightarrow> string list" where
  "split_comma [] = [[]]"
| "split_comma (c # cs) =
     (if c = CHR '','' then [] # split_comma cs
      else (c # hd (split_comma cs)) # tl (split_comma cs))"

text \<open>
  \<^verbatim>\<open>int(s)\<close> for a string: white space is stripped on both sides, one sign is allowed, then
  come digits, with single underscores between digits. The result of \<open>int_digits\<close> is the
  value and the number of digits read. An interpreter with a limit on the digits of such
  a conversion (\<^verbatim>\<open>sys.get_int_max_str_digits()\<close>, 4300 by default since Python 3.11) raises
  \<^verbatim>\<open>ValueError\<close> beyond it; \<open>max_str_digits = 0\<close> is no limit. \<open>None\<close> is the
  \<^verbatim>\<open>ValueError\<close>.
\<close>

fun int_digits :: "nat \<Rightarrow> nat \<Rightarrow> string \<Rightarrow> (nat \<times> nat) option" where
  "int_digits acc n [] = Some (acc, n)"
| "int_digits acc n (c # cs) =
     (if is_digit c then int_digits (10 * acc + digit_val c) (Suc n) cs
      else if c = CHR ''_'' then
        (case cs of
           [] \<Rightarrow> None
         | d # ds \<Rightarrow> if is_digit d then int_digits (10 * acc + digit_val d) (Suc n) ds
                    else None)
      else None)"

definition strip_ws :: "string \<Rightarrow> string" where
  "strip_ws s = rev (dropWhile is_space (rev (dropWhile is_space s)))"

definition py_int :: "nat \<Rightarrow> string \<Rightarrow> int option" where
  "py_int max_str_digits s =
     (let t = strip_ws s;
          neg = (t \<noteq> [] \<and> hd t = CHR ''-'');
          body = (if t \<noteq> [] \<and> (hd t = CHR ''-'' \<or> hd t = CHR ''+'') then tl t else t)
      in case body of
           [] \<Rightarrow> None
         | d # ds \<Rightarrow>
             if \<not> is_digit d then None
             else case int_digits (digit_val d) 1 ds of
                    None \<Rightarrow> None
                  | Some (v, n) \<Rightarrow>
                      if 0 < max_str_digits \<and> 640 < n \<and> max_str_digits < n then None
                      else Some (if neg then - int v else int v))"

text \<open>
  \<^verbatim>\<open>list(map(int, pieces))\<close>: left to right, stopping at the first piece that \<^verbatim>\<open>int\<close>
  refuses; \<open>Inl\<close> carries that piece.
\<close>

fun map_int :: "nat \<Rightarrow> string list \<Rightarrow> string + int list" where
  "map_int mx [] = Inr []"
| "map_int mx (w # ws) =
     (case py_int mx w of
        None \<Rightarrow> Inl w
      | Some v \<Rightarrow> (case map_int mx ws of Inl b \<Rightarrow> Inl b | Inr vs \<Rightarrow> Inr (v # vs)))"

text \<open>
  What the function prints: \<^verbatim>\<open>No valid RSSI data found in the input.\<close>, or
  \<^verbatim>\<open>Error parsing input: ...\<close>, where the text of the exception is represented by the
  piece that \<^verbatim>\<open>int\<close> refused.
\<close>

datatype printed = No_valid_data | Error_parsing string

text \<open>
  \<open>parse_body\<close> is the body of the \<^verbatim>\<open>try\<close>: \<open>Inl\<close> is the exception it raises, \<open>Inr\<close>
  its return value together with the lines it printed. \<open>parse_rssi_input\<close> adds the
  handler \<^verbatim>\<open>except Exception as e\<close>.
\<close>

definition parse_body :: "nat \<Rightarrow> string \<Rightarrow> string + (int list \<times> printed list)" where
  "parse_body mx input_text =
     (case re_search input_text of
        Some rssi_data \<Rightarrow>
          (case map_int mx (split_comma rssi_data) of
             Inl bad \<Rightarrow> Inl bad
           | Inr readings \<Rightarrow> Inr (readings, []))
      | None \<Rightarrow> Inr ([], [No_valid_data]))"

definition parse_rssi_input :: "nat \<Rightarrow> string \<Rightarrow> int list \<times> printed list" where
  "parse_rssi_input mx input_text =
     (case parse_body mx input_text of
        Inr r \<Rightarrow> r
      | Inl bad \<Rightarrow> ([], [Error_parsing bad]))"



definition pattern_at :: "string \<Rightarrow> bool" where
  "pattern_at s =
     (\<exists>ds g post.
        s = ''Received '' @ ds @ '' RSSI level readings: ['' @ g @ '']'' @ post
        \<and> ds \<noteq> [] \<and> list_all is_digit ds \<and> CHR 0x0A \<notin> set g)"

definition first_match :: "string \<Rightarrow> string \<Rightarrow> string \<Rightarrow> string \<Rightarrow> string \<Rightarrow> bool" where
  "first_match s pre ds g post =
     (s = pre @ ''Received '' @ ds @ '' RSSI level readings: ['' @ g @ '']'' @ post
      \<and> ds \<noteq> [] \<and> list_all is_digit ds \<and> CHR 0x0A \<notin> set g
      \<and> CHR '']'' \<notin> set (takeWhile (\<lambda>c. c \<noteq> CHR 0x0A) post)
      \<and> (\<forall>n. n < length pre \<longrightarrow> \<not> pattern_at (drop n s)))"

section \<open>The main windows and the console plot loop\<close>

text \<open>
  In both GUI variants the scanner's callback puts what it receives on a queue
  (\<^verbatim>\<open>self.plot_queue.put(payload)\<close>) and a timer of 200 ms runs the method that empties it.
  The vendor library promises a list of integers; the methods test
  \<^verbatim>\<open>isinstance(data, list) and data\<close>, so the model keeps the case of something that is
  not a list. The queue is a list, oldest entry first; nothing is put on it while a tick
  runs.
\<close>

datatype payload = PyList "int list" | NotAList

text \<open>
  The sweeps a queue holds that pass the test \<^verbatim>\<open>isinstance(data, list) and data\<close>, in
  order.
\<close>

fun sweeps :: "payload list \<Rightarrow> int list list" where
  "sweeps [] = []"
| "sweeps (PyList d # q) = (if d \<noteq> [] then d # sweeps q else sweeps q)"
| "sweeps (NotAList # q) = sweeps q"

text \<open>\<^verbatim>\<open>str(n)\<close> for a length, used in a status text.\<close>

fun str_nat :: "nat \<Rightarrow> string" where
  "str_nat n = (if n < 10 then [char_of (48 + n)]
                else str_nat (n div 10) @ [char_of (48 + n mod 10)])"

subsection \<open>Basic GUI: \<^verbatim>\<open>MainWindow._process_plot_queue\<close>\<close>

record basic_window =
  b_plot_queue :: "payload list"
  b_start_freq :: rat
  b_end_freq :: rat
  b_freq_step :: rat
  b_rssi_min :: int
  b_rssi_max :: int
  b_canvas :: canvas
  b_status_label :: string

text \<open>The body of the loop, for one entry taken from the queue (lines 330-333).\<close>

definition plot_item_basic :: "basic_window \<Rightarrow> payload \<Rightarrow> basic_window" where
  "plot_item_basic mw data =
     (case data of
        PyList d \<Rightarrow>
          if d \<noteq> [] then
            mw\<lparr>b_canvas := plot_rssi_basic (b_canvas mw) d,
               b_status_label := ''Last update: '' @ str_nat (length d) @ '' points''\<rparr>
          else mw
      | NotAList \<Rightarrow> mw)"

text \<open>
  \<^verbatim>\<open>while True: data = self.plot_queue.get_nowait() ...\<close> inside \<^verbatim>\<open>try ... except Empty: pass\<close>:
  the loop ends when the queue is empty.
\<close>

function process_plot_queue :: "basic_window \<Rightarrow> basic_window" where
  "process_plot_queue mw =
     (case b_plot_queue mw of
        [] \<Rightarrow> mw
      | data # rest \<Rightarrow> process_plot_queue (plot_item_basic (mw\<lparr>b_plot_queue := rest\<rparr>) data))"
  by pat_completeness auto
termination
  by (relation "measure (\<lambda>mw. length (b_plot_queue mw))")
    (auto simp: plot_item_basic_def split: payload.splits)

declare process_plot_queue.simps [simp del]

subsection \<open>Extended GUI: \<^verbatim>\<open>_update_plot\<close>, \<^verbatim>\<open>_log_data\<close> and \<^verbatim>\<open>_export_csv\<close>\<close>

text \<open>
  A CSV file is the list of the rows written to it, a row the list of its cells. The world
  outside the program is the file system (a map from paths to files; a file that was never
  opened for writing is absent), the user's home directory as \<^verbatim>\<open>os.path.expanduser\<close>
  resolves \<^verbatim>\<open>~\<close>, and the clock: \<open>now w n\<close> is the formatted time that
  \<^verbatim>\<open>datetime.now().strftime(...)\<close> returns at its \<open>n\<close>-th call. Opening and writing a file
  always succeed in this model.
\<close>

datatype cell = CStr string | CFloat rat | CInt int

record world =
  files :: "string \<rightharpoonup> cell list list"
  home :: string
  now :: "nat \<Rightarrow> string"
  now_calls :: nat

record main_window =
  plot_queue :: "payload list"
  mw_start_freq :: rat
  mw_end_freq :: rat
  mw_freq_step :: rat
  mw_rssi_min :: int
  mw_rssi_max :: int
  scan_interval :: rat
  logging_enabled :: bool
  latest_data :: "int list"
  mw_canvas :: canvas
  status_label :: string

definition DEFAULT_SCAN_INTERVAL :: rat where "DEFAULT_SCAN_INTERVAL = 5 / 2"

text \<open>The state \<^verbatim>\<open>MainWindow.__init__\<close> sets up.\<close>

definition init_main_window :: main_window where
  "init_main_window =
     \<lparr>plot_queue = [],
      mw_start_freq = DEFAULT_START_FREQ, mw_end_freq = DEFAULT_END_FREQ,
      mw_freq_step = DEFAULT_FREQ_STEP,
      mw_rssi_min = DEFAULT_RSSI_MIN, mw_rssi_max = DEFAULT_RSSI_MAX,
      scan_interval = DEFAULT_SCAN_INTERVAL,
      logging_enabled = False,
      latest_data = [],
      mw_canvas = default_canvas,
      status_label = ''Ready''\<rparr>"

definition log_header :: "cell list" where
  "log_header = [CStr ''Timestamp'', CStr ''Frequency (MHz)'', CStr ''RSSI (dBm)'']"

definition export_header :: "cell list" where
  "export_header = [CStr ''Frequency (MHz)'', CStr ''RSSI (dBm)'']"

text \<open>\<^verbatim>\<open>os.path.expanduser('~/rssi_log.csv')\<close>.\<close>

definition log_path :: "world \<Rightarrow> string" where
  "log_path w = home w @ ''/rssi_log.csv''"

text \<open>
  \<^verbatim>\<open>_log_data\<close> (lines 289-299): the file is opened with mode \<^verbatim>\<open>'a'\<close>, which creates it
  when it is absent and keeps what it holds otherwise.
\<close>

definition log_data :: "main_window \<Rightarrow> world \<Rightarrow> int list \<Rightarrow> world" where
  "log_data mw w data =
     (let freqs = linspace (mw_start_freq mw) (mw_end_freq mw) (length data);
          timestamp = now w (now_calls w);
          new_file = (files w (log_path w) = None);
          old = (case files w (log_path w) of None \<Rightarrow> [] | Some rows \<Rightarrow> rows);
          header = (if new_file then [log_header] else []);
          rows = map (\<lambda>(fr, val). [CStr timestamp, CFloat fr, CInt val]) (zip freqs data)
      in w\<lparr>files := (files w)(log_path w \<mapsto> old @ header @ rows),
           now_calls := Suc (now_calls w)\<rparr>)"

text \<open>
  \<^verbatim>\<open>_export_csv\<close> (lines 234-247); \<open>path\<close> is what the save dialog returns, empty when the
  user cancels. The file is opened with mode \<^verbatim>\<open>'w'\<close>: what it held is gone.
\<close>

definition export_csv :: "main_window \<Rightarrow> string \<Rightarrow> world \<Rightarrow> main_window \<times> world" where
  "export_csv mw path w =
     (if latest_data mw = [] then (mw\<lparr>status_label := ''No data to export''\<rparr>, w)
      else if path = [] then (mw, w)
      else
        let freqs = linspace (mw_start_freq mw) (mw_end_freq mw) (length (latest_data mw));
            rows = export_header
                   # map (\<lambda>(fr, val). [CFloat fr, CInt val]) (zip freqs (latest_data mw))
        in (mw\<lparr>status_label := ''Exported to '' @ path\<rparr>,
            w\<lparr>files := (files w)(path \<mapsto> rows)\<rparr>))"

text \<open>The body of the loop of \<^verbatim>\<open>_update_plot\<close>, for one entry taken from the queue.\<close>

definition plot_item_ext :: "main_window \<times> world \<Rightarrow> payload \<Rightarrow> main_window \<times> world" where
  "plot_item_ext st data =
     (case data of
        PyList d \<Rightarrow>
          if d \<noteq> [] then
            let mw = (fst st)\<lparr>latest_data := d,
                              mw_canvas := plot_rssi_ext (mw_canvas (fst st)) d\<rparr>
            in if logging_enabled mw then (mw, log_data mw (snd st) d) else (mw, snd st)
          else st
      | NotAList \<Rightarrow> st)"

function update_plot :: "main_window \<times> world \<Rightarrow> main_window \<times> world" where
  "update_plot (mw, w) =
     (case plot_queue mw of
        [] \<Rightarrow> (mw, w)
      | data # rest \<Rightarrow> update_plot (plot_item_ext (mw\<lparr>plot_queue := rest\<rparr>, w) data))"
  by pat_completeness auto
termination
  by (relation "measure (\<lambda>(mw, w). length (plot_queue mw))")
    (auto simp: plot_item_ext_def Let_def split: payload.splits if_splits)

declare update_plot.simps [simp del]

text \<open>
  A run of timer ticks: before each tick the scanner's callback has put a batch of entries
  on the queue (\<^verbatim>\<open>_scanner_callback\<close> with the tag \<^verbatim>\<open>rssi\<close>), then \<^verbatim>\<open>_update_plot\<close> runs.
\<close>

fun ticks :: "payload list list \<Rightarrow> main_window \<times> world \<Rightarrow> main_window \<times> world" where
  "ticks [] st = st"
| "ticks (batch # bs) st =
     ticks bs (update_plot ((fst st)\<lparr>plot_queue := plot_queue (fst st) @ batch\<rparr>, snd st))"

text \<open>
  The states the two draining methods are shown to end in: the queue is empty and, when
  the queue held a sweep, the last one is what the window keeps.
\<close>

definition drained_basic :: "basic_window \<Rightarrow> basic_window" where
  "drained_basic bw =
     (let s = sweeps (b_plot_queue bw)
      in if s = [] then bw\<lparr>b_plot_queue := []\<rparr>
         else bw\<lparr>b_plot_queue := [],
                 b_canvas := plot_rssi_basic (b_canvas bw) (last s),
                 b_status_label := ''Last update: '' @ str_nat (length (last s)) @ '' points''\<rparr>)"

definition drained :: "main_window \<Rightarrow> main_window" where
  "drained mw =
     (let s = sweeps (plot_queue mw)
      in if s = [] then mw\<lparr>plot_queue := []\<rparr>
         else mw\<lparr>plot_queue := [], latest_data := last s,
                 mw_canvas := plot_rssi_ext (mw_canvas mw) (last s)\<rparr>)"

text \<open>A world with no files, for the examples.\<close>

definition fresh_world :: world where
  "fresh_world =
     \<lparr>files = Map.empty, home = ''/home/user'',
      now = (\<lambda>n. ''2024-05-01 12:00:00''), now_calls = 0\<rparr>"

subsection \<open>Console variant: the loop of \<^verbatim>\<open>plot_rssi_spectrum\<close>\<close>

text \<open>
  One pass through the body of \<^verbatim>\<open>while True\<close> (lines 55-74 of \<^verbatim>\<open>realtime_plot.py\<close>): when
  the queue is not empty, one sweep is taken from it and plotted, and the loop pauses
  (\<^verbatim>\<open>plt.pause(0.1)\<close>); otherwise the pass does nothing. The sweeps on this queue are the
  lists the vendor library hands to \<^verbatim>\<open>scan_callback\<close>.
\<close>

record console =
  plot_data_queue :: "int list list"
  axes :: "(rat list \<times> int list) option"
  pauses :: nat

definition plot_iteration :: "console \<Rightarrow> console" where
  "plot_iteration st =
     (case plot_data_queue st of
        [] \<Rightarrow> st
      | rssi_values # rest \<Rightarrow>
          st\<lparr>plot_data_queue := rest,
             axes := Some (frequencies rssi_values, rssi_values),
             pauses := Suc (pauses st)\<rparr>)"

section \<open>The scan session\<close>

text \<open>
  The vendor library \<^verbatim>\<open>pyairview\<close> is outside the repository; its calls are modelled by
  their outcomes. An outcome is a return value or an exception; \<open>Exception m\<close> is any
  instance of a subclass of \<^verbatim>\<open>Exception\<close> with the text \<open>m\<close>, the other two are what
  \<^verbatim>\<open>except Exception\<close> does not catch.
\<close>

datatype exn = Exception string | KeyboardInterrupt | OtherBaseException

datatype 'a outcome = Ret 'a | Raise exn

text \<open>
  What a session does is recorded as the list of its actions, in order. Time is counted in
  actions: an action happens at the time that is the number of actions before it. The
  window's callback (which posts to the Qt event loop), \<^verbatim>\<open>print\<close> and, in a GUI thread,
  \<^verbatim>\<open>time.sleep\<close> are taken to return.
\<close>

datatype action =
    Connect string
  | StartScan
  | IsSet bool
  | IsScanning
  | Sleep rat
  | StopScan
  | Disconnect
  | Callback string string
  | Print string
  | StartPlotThread
  | Show

text \<open>
  The environment of one session: the outcome of each library call (of \<^verbatim>\<open>is_scanning\<close> and
  of \<^verbatim>\<open>time.sleep\<close> as a function of the time of the call) and the state of the stop
  event at each time. The event is one \<^verbatim>\<open>threading.Event\<close> that the window shares with
  every thread it starts: \<^verbatim>\<open>_on_stop\<close> (\<^verbatim>\<open>_stop_scan\<close>) sets it and re-enables the start
  button without waiting for the thread, and \<^verbatim>\<open>_on_start\<close> (\<^verbatim>\<open>_start_scan\<close>) clears it.
  So the event can be set at one time and clear again at a later one.
\<close>

record device =
  connect_result :: "bool outcome"
  start_scan_result :: "unit outcome"
  is_scanning_at :: "nat \<Rightarrow> bool outcome"
  sleep_at :: "nat \<Rightarrow> unit outcome"
  stop_scan_result :: "unit outcome"
  disconnect_result :: "unit outcome"
  stop_event_at :: "nat \<Rightarrow> bool"

subsection \<open>\<^verbatim>\<open>ScannerThread.run\<close> of the two GUI variants\<close>

text \<open>
  The two variants differ in the text sent after connecting (the basic GUI's has a dash,
  U+2014, written here as its three UTF-8 bytes) and in the pause of the monitoring loop:
  half a second in the basic GUI, \<^verbatim>\<open>self.interval\<close> in the extended one.
\<close>

datatype gui = Basic | Extended rat

definition connected_message :: "gui \<Rightarrow> string \<Rightarrow> string" where
  "connected_message g port =
     (case g of
        Basic \<Rightarrow> ''Connected to '' @ port @ '' '' @ [CHR 0xE2, CHR 0x80, CHR 0x94]
                 @ '' starting scan''
      | Extended i \<Rightarrow> ''Connected to '' @ port)"

definition poll_interval :: "gui \<Rightarrow> rat" where
  "poll_interval g = (case g of Basic \<Rightarrow> 1 / 2 | Extended i \<Rightarrow> i)"

text \<open>\<^verbatim>\<open>self.stop_event.is_set()\<close> after the actions \<open>tr\<close>.\<close>

definition is_set :: "device \<Rightarrow> action list \<Rightarrow> bool" where
  "is_set dev tr = stop_event_at dev (length tr)"

text \<open>
  \<^verbatim>\<open>while not self.stop_event.is_set() and pyairview.is_scanning(): time.sleep(...)\<close>. The loop
  need not end, so it runs on fuel: one unit for each test of its condition, \<open>None\<close> when
  the fuel is used up.
\<close>

fun monitor :: "nat \<Rightarrow> gui \<Rightarrow> device \<Rightarrow> action list \<Rightarrow> (unit outcome \<times> action list) option" where
  "monitor 0 g dev tr = None"
| "monitor (Suc fuel) g dev tr =
     (if is_set dev tr then Some (Ret (), tr @ [IsSet True])
      else case is_scanning_at dev (length tr + 1) of
             Raise e \<Rightarrow> Some (Raise e, tr @ [IsSet False, IsScanning])
           | Ret scanning \<Rightarrow>
               if scanning
               then monitor fuel g dev (tr @ [IsSet False, IsScanning, Sleep (poll_interval g)])
               else Some (Ret (), tr @ [IsSet False, IsScanning]))"

text \<open>The body of the \<^verbatim>\<open>try\<close>: how it ends, and the actions up to there.\<close>

definition run_try :: "nat \<Rightarrow> gui \<Rightarrow> device \<Rightarrow> string \<Rightarrow> (unit outcome \<times> action list) option" where
  "run_try fuel g dev port =
     (case connect_result dev of
        Raise e \<Rightarrow> Some (Raise e, [Connect port])
      | Ret conn \<Rightarrow>
          if \<not> conn
          then Some (Ret (), [Connect port,
                              Callback ''__error__'' (''Failed to connect to '' @ port)])
          else
            let tr0 = [Connect port, Callback ''__status__'' (connected_message g port),
                       StartScan]
            in case start_scan_result dev of
                 Raise e \<Rightarrow> Some (Raise e, tr0)
               | Ret u \<Rightarrow>
                   (case monitor fuel g dev tr0 of
                      None \<Rightarrow> None
                    | Some (Raise e, tr) \<Rightarrow> Some (Raise e, tr)
                    | Some (Ret u, tr) \<Rightarrow>
                        (case is_scanning_at dev (length tr) of
                           Raise e \<Rightarrow> Some (Raise e, tr @ [IsScanning])
                         | Ret scanning \<Rightarrow>
                             if scanning
                             then (case stop_scan_result dev of
                                     Raise e \<Rightarrow> Some (Raise e, tr @ [IsScanning, StopScan])
                                   | Ret u \<Rightarrow> Some (Ret (), tr @ [IsScanning, StopScan]))
                             else Some (Ret (), tr @ [IsScanning]))))"

text \<open>\<^verbatim>\<open>except Exception as e: self.callback('__error__', f'Scanner error: {e}')\<close>.\<close>

definition run_except :: "unit outcome \<times> action list \<Rightarrow> unit outcome \<times> action list" where
  "run_except res =
     (case res of
        (Raise (Exception m), tr) \<Rightarrow>
          (Ret (), tr @ [Callback ''__error__'' (''Scanner error: '' @ m)])
      | (r, tr) \<Rightarrow> (r, tr))"

text \<open>
  The \<^verbatim>\<open>finally\<close> block: \<^verbatim>\<open>pyairview.disconnect()\<close> inside \<^verbatim>\<open>try ... except Exception: pass\<close>,
  then the status \<^verbatim>\<open>Disconnected\<close>. An exception that is not an \<^verbatim>\<open>Exception\<close> leaves the
  block and replaces what was pending.
\<close>

definition run_finally :: "device \<Rightarrow> unit outcome \<times> action list \<Rightarrow> unit outcome \<times> action list" where
  "run_finally dev res =
     (case res of
        (r, tr) \<Rightarrow>
          (case disconnect_result dev of
             Ret u \<Rightarrow> (r, tr @ [Disconnect, Callback ''__status__'' ''Disconnected''])
           | Raise (Exception m) \<Rightarrow>
               (r, tr @ [Disconnect, Callback ''__status__'' ''Disconnected''])
           | Raise e \<Rightarrow> (Raise e, tr @ [Disconnect])))"

definition run :: "nat \<Rightarrow> gui \<Rightarrow> device \<Rightarrow> string \<Rightarrow> (unit outcome \<times> action list) option" where
  "run fuel g dev port =
     (case run_try fuel g dev port of
        None \<Rightarrow> None
      | Some res \<Rightarrow> Some (run_finally dev (run_except res)))"

text \<open>
  What the window's callback makes of a message of the thread (\<^verbatim>\<open>_scanner_callback\<close>): the
  text the status label is set to. Readings (tag \<^verbatim>\<open>rssi\<close>) go to the queue instead.
\<close>

definition status_text :: "string \<Rightarrow> string \<Rightarrow> string option" where
  "status_text tag payload =
     (if tag = ''rssi'' then None
      else if tag = ''__status__'' then Some payload
      else if tag = ''__error__'' then Some (''ERROR: '' @ payload)
      else None)"

fun status_texts :: "action list \<Rightarrow> string list" where
  "status_texts [] = []"
| "status_texts (Callback tag payload # tr) =
     (case status_text tag payload of None \<Rightarrow> status_texts tr | Some s \<Rightarrow> s # status_texts tr)"
| "status_texts (a # tr) = status_texts tr"

subsection \<open>Console variant: \<^verbatim>\<open>start_scan\<close>\<close>

text \<open>\<^verbatim>\<open>while pyairview.is_scanning(): time.sleep(0.5)\<close>, on fuel like \<open>monitor\<close>.\<close>

fun poll :: "nat \<Rightarrow> device \<Rightarrow> action list \<Rightarrow> (unit outcome \<times> action list) option" where
  "poll 0 dev tr = None"
| "poll (Suc fuel) dev tr =
     (case is_scanning_at dev (length tr) of
        Raise e \<Rightarrow> Some (Raise e, tr @ [IsScanning])
      | Ret scanning \<Rightarrow>
          if scanning
          then (case sleep_at dev (length tr + 1) of
                  Raise e \<Rightarrow> Some (Raise e, tr @ [IsScanning, Sleep (1 / 2)])
                | Ret u \<Rightarrow> poll fuel dev (tr @ [IsScanning, Sleep (1 / 2)]))
          else Some (Ret (), tr @ [IsScanning]))"

definition start_scan_try :: "nat \<Rightarrow> device \<Rightarrow> (unit outcome \<times> action list) option" where
  "start_scan_try fuel dev =
     (case connect_result dev of
        Raise e \<Rightarrow> Some (Raise e, [Connect ''/dev/ttyACM0''])
      | Ret conn \<Rightarrow>
          if \<not> conn
          then Some (Ret (), [Connect ''/dev/ttyACM0'',
                              Print ''Failed to connect to the device.''])
          else
            let tr0 = [Connect ''/dev/ttyACM0'', Print ''Starting RSSI scan...'', StartScan]
            in case start_scan_result dev of
                 Raise e \<Rightarrow> Some (Raise e, tr0)
               | Ret u \<Rightarrow>
                   (case poll fuel dev (tr0 @ [StartPlotThread]) of
                      None \<Rightarrow> None
                    | Some (Raise e, tr) \<Rightarrow> Some (Raise e, tr)
                    | Some (Ret u, tr) \<Rightarrow>
                        (case stop_scan_result dev of
                           Raise e \<Rightarrow> Some (Raise e, tr @ [StopScan])
                         | Ret u \<Rightarrow> Some (Ret (), tr @ [StopScan]))))"

text \<open>\<^verbatim>\<open>except KeyboardInterrupt\<close> and \<^verbatim>\<open>except Exception as e\<close>, in this order.\<close>

definition start_scan_except :: "unit outcome \<times> action list \<Rightarrow> unit outcome \<times> action list" where
  "start_scan_except res =
     (case res of
        (Raise KeyboardInterrupt, tr) \<Rightarrow> (Ret (), tr @ [Print ''Scan interrupted by user.''])
      | (Raise (Exception m), tr) \<Rightarrow> (Ret (), tr @ [Print (''Error during scan: '' @ m)])
      | (r, tr) \<Rightarrow> (r, tr))"

text \<open>
  The \<^verbatim>\<open>finally\<close> block: the disconnect and its message inside
  \<^verbatim>\<open>try ... except Exception as e\<close>, which prints the error, then \<^verbatim>\<open>plt.show()\<close>.
\<close>

definition start_scan_finally ::
    "device \<Rightarrow> unit outcome \<times> action list \<Rightarrow> unit outcome \<times> action list" where
  "start_scan_finally dev res =
     (case res of
        (r, tr) \<Rightarrow>
          (case disconnect_result dev of
             Ret u \<Rightarrow>
               (r, tr @ [Disconnect, Print ''Disconnected from Airview device.'', Show])
           | Raise (Exception m) \<Rightarrow>
               (r, tr @ [Disconnect, Print (''Error during cleanup: '' @ m), Show])
           | Raise e \<Rightarrow> (Raise e, tr @ [Disconnect])))"

definition start_scan :: "nat \<Rightarrow> device \<Rightarrow> (unit outcome \<times> action list) option" where
  "start_scan fuel dev =
     (case start_scan_try fuel dev of
        None \<Rightarrow> None
      | Some res \<Rightarrow> Some (start_scan_finally dev (start_scan_except res)))"

subsection \<open>Counting actions, and some devices\<close>

definition is_sleep :: "action \<Rightarrow> bool" where
  "is_sleep a = (case a of Sleep d \<Rightarrow> True | _ \<Rightarrow> False)"

definition is_connect :: "action \<Rightarrow> bool" where
  "is_connect a = (case a of Connect p \<Rightarrow> True | _ \<Rightarrow> False)"

text \<open>The number of sleeps among the actions from time \<open>t\<close> on.\<close>

definition sleeps_from :: "nat \<Rightarrow> action list \<Rightarrow> nat" where
  "sleeps_from t tr = length (filter is_sleep (drop t tr))"

text \<open>
  A device on which every call succeeds and that never stops scanning by itself, one that
  has finished scanning, and one that cannot be opened.
\<close>

definition good_device :: device where
  "good_device =
     \<lparr>connect_result = Ret True, start_scan_result = Ret (),
      is_scanning_at = (\<lambda>t. Ret True), sleep_at = (\<lambda>t. Ret ()),
      stop_scan_result = Ret (), disconnect_result = Ret (),
      stop_event_at = (\<lambda>t. False)\<rparr>"

definition finished_device :: device where
  "finished_device = good_device\<lparr>is_scanning_at := (\<lambda>t. Ret False)\<rparr>"

text \<open>
  A stop that is lost. The user presses Stop while the thread is in its first sleep (time
  5) and Start again before that sleep is over, so that the event is clear when the thread
  tests it next (time 6); the device goes on scanning for the session just started, until
  time 13.
\<close>

definition restarted_device :: device where
  "restarted_device =
     good_device\<lparr>stop_event_at := (\<lambda>t. t = 5),
                 is_scanning_at := (\<lambda>t. if t < 13 then Ret True else Ret False)\<rparr>"

text \<open>The stop event is set at time \<open>t\<close> and is not cleared afterwards.\<close>

definition stays_set :: "device \<Rightarrow> nat \<Rightarrow> bool" where
  "stays_set dev t = (\<forall>t'. t \<le> t' \<longrightarrow> stop_event_at dev t')"

definition unplugged_device :: device where
  "unplugged_device = good_device\<lparr>connect_result := Raise (Exception ''no such port'')\<rparr>"

section \<open>Properties of the frequency axes\<close>

lemma length_linspace: "length (linspace s e n) = n"
  by (simp add: linspace_def Let_def)

lemma linspace_one: "linspace s e (Suc 0) = [s]"
  by (simp add: linspace_def)

lemma linspace_nth:
  assumes "2 \<le> n" and "i < n"
  shows "linspace s e n ! i = s + of_nat i * ((e - s) / of_nat (n - 1))"
proof (cases "i = n - 1")
  case True
  have "(of_nat (n - 1) :: rat) \<noteq> 0"
    using assms by simp
  then have "s + of_nat (n - 1) * ((e - s) / of_nat (n - 1)) = e"
    by simp
  with True assms show ?thesis
    by (simp add: linspace_def Let_def)
next
  case False
  with assms show ?thesis
    by (simp add: linspace_def Let_def)
qed








lemma plot_rssi_axis_unchanged:
  "plot_rssi_axis c rssi_values =
     (Unchanged, map (\<lambda>i. start_freq c + of_nat i * freq_step c) [0..<length rssi_values])"
  by (simp add: plot_rssi_axis_def Let_def)

text \<open>
  C10. In the basic GUI's \<^verbatim>\<open>plot_rssi\<close>, for every non-empty list of readings the axis built
  from the step has exactly as many elements as the list. Neither the truncating branch nor
  the branch that falls back to \<^verbatim>\<open>np.linspace\<close> runs, and the frequencies plotted are
  \<open>start_freq + i * freq_step\<close> for \<open>i = 0, ..., N - 1\<close>.
\<close>

theorem plot_rssi_basic_step_axis:
  "rssi_values \<noteq> [] \<Longrightarrow>
     fst (plot_rssi_axis c rssi_values) = Unchanged
   \<and> length (snd (plot_rssi_axis c rssi_values)) = length rssi_values
   \<and> plotted (plot_rssi_basic c rssi_values) =
       Some (map (\<lambda>i. start_freq c + of_nat i * freq_step c) [0..<length rssi_values],
             rssi_values)"
  by (simp add: plot_rssi_basic_def plot_rssi_axis_unchanged)

theorem plot_rssi_basic_step_axis_witness:
  "[- 50, - 60, - 70 :: int] \<noteq> []
   \<and> fst (plot_rssi_axis default_canvas [- 50, - 60, - 70]) = Unchanged
   \<and> plotted (plot_rssi_basic default_canvas [- 50, - 60, - 70]) =
       Some ([2399, 4799 / 2, 2400], [- 50, - 60, - 70])"
  using plot_rssi_basic_step_axis [of "[- 50, - 60, - 70]" default_canvas]
  by (simp add: default_canvas_def DEFAULT_START_FREQ_def DEFAULT_FREQ_STEP_def
      upt_conv_Cons)




section \<open>Properties of the parser\<close>

lemma strip_prefix_Some: "strip_prefix p s = Some r \<longleftrightarrow> s = p @ r"
  by (induction p s rule: strip_prefix.induct) auto

lemma strip_prefix_append: "strip_prefix p (p @ r) = Some r"
  by (simp add: strip_prefix_Some)

lemma split_at_last:
  assumes "x \<in> set xs"
  shows "xs = rev (tl (dropWhile (\<lambda>c. c \<noteq> x) (rev xs))) @ x # rev (takeWhile (\<lambda>c. c \<noteq> x) (rev xs))"
proof -
  let ?P = "\<lambda>c. c \<noteq> x"
  let ?dw = "dropWhile ?P (rev xs)"
  have ne: "?dw \<noteq> []"
    using assms by (simp add: dropWhile_eq_Nil_conv)
  then have "\<not> ?P (hd ?dw)"
    by (rule hd_dropWhile)
  with ne have dw: "?dw = x # tl ?dw"
    by (cases ?dw) auto
  have "rev xs = takeWhile ?P (rev xs) @ ?dw"
    by simp
  then have "rev xs = takeWhile ?P (rev xs) @ x # tl ?dw"
    using dw by simp
  then have "rev (rev xs) = rev (takeWhile ?P (rev xs) @ x # tl ?dw)"
    by (rule arg_cong)
  then show ?thesis
    by simp
qed

lemma takeWhile_dropWhile_Nil: "takeWhile P (dropWhile P xs) = []"
  by (induction xs) auto

lemma match_here_sound_greedy:
  assumes "match_here s = Some g"
  shows "\<exists>ds post. s = ''Received '' @ ds @ '' RSSI level readings: ['' @ g @ '']'' @ post
           \<and> ds \<noteq> [] \<and> list_all is_digit ds \<and> CHR 0x0A \<notin> set g
           \<and> CHR '']'' \<notin> set (takeWhile (\<lambda>c. c \<noteq> CHR 0x0A) post)"
proof -
  from assms obtain s1 where s1: "strip_prefix ''Received '' s = Some s1"
    by (auto simp: match_here_def split: option.splits)
  define ds where "ds = takeWhile is_digit s1"
  define s2 where "s2 = dropWhile is_digit s1"
  from assms s1 have ds_ne: "ds \<noteq> []"
    by (auto simp: match_here_def Let_def ds_def split: option.splits if_splits)
  from assms s1 ds_ne obtain s3 where s3: "strip_prefix '' RSSI level readings: ['' s2 = Some s3"
    by (auto simp: match_here_def Let_def ds_def s2_def split: option.splits if_splits)
  define span where "span = takeWhile (\<lambda>c. c \<noteq> CHR 0x0A) s3"
  from assms s1 ds_ne s3 have br: "CHR '']'' \<in> set span"
    and g: "g = rev (tl (dropWhile (\<lambda>c. c \<noteq> CHR '']'') (rev span)))"
    by (auto simp: match_here_def Let_def ds_def s2_def span_def split: option.splits if_splits)
  define behind where "behind = rev (takeWhile (\<lambda>c. c \<noteq> CHR '']'') (rev span))"
  define rest where "rest = dropWhile (\<lambda>c. c \<noteq> CHR 0x0A) s3"
  define post where "post = behind @ rest"
  have span_split: "span = g @ CHR '']'' # behind"
    unfolding g behind_def by (rule split_at_last [OF br])
  have "s3 = span @ rest"
    by (simp add: span_def rest_def)
  then have s3_eq: "s3 = g @ '']'' @ post"
    using span_split by (simp add: post_def)
  have s1_eq: "s1 = ds @ s2"
    by (simp add: ds_def s2_def)
  have "s = ''Received '' @ s1"
    using s1 by (simp only: strip_prefix_Some)
  moreover have "s2 = '' RSSI level readings: ['' @ s3"
    using s3 by (simp only: strip_prefix_Some)
  ultimately have "s = ''Received '' @ ds @ '' RSSI level readings: ['' @ g @ '']'' @ post"
    using s1_eq s3_eq by simp
  moreover have "list_all is_digit ds"
    by (simp add: ds_def list_all_iff) (meson set_takeWhileD)
  moreover have "CHR 0x0A \<notin> set g"
  proof
    assume "CHR 0x0A \<in> set g"
    then have "CHR 0x0A \<in> set span"
      using span_split by (metis Un_iff set_append)
    then show False
      unfolding span_def by (auto dest: set_takeWhileD)
  qed
  moreover have "CHR '']'' \<notin> set (takeWhile (\<lambda>c. c \<noteq> CHR 0x0A) post)"
  proof -
    have sub: "set behind \<subseteq> set span"
      unfolding behind_def by (auto dest: set_takeWhileD)
    have "\<forall>c \<in> set span. c \<noteq> CHR 0x0A"
      unfolding span_def by (auto dest: set_takeWhileD)
    with sub have "\<forall>c \<in> set behind. c \<noteq> CHR 0x0A"
      by blast
    then have "takeWhile (\<lambda>c. c \<noteq> CHR 0x0A) post = behind"
      by (simp add: post_def rest_def takeWhile_append2 takeWhile_dropWhile_Nil)
    moreover have "CHR '']'' \<notin> set behind"
      unfolding behind_def by (auto dest: set_takeWhileD)
    ultimately show ?thesis
      by simp
  qed
  ultimately show ?thesis
    using ds_ne by blast
qed

lemma match_here_sound:
  assumes "match_here s = Some g"
  shows "\<exists>ds post. s = ''Received '' @ ds @ '' RSSI level readings: ['' @ g @ '']'' @ post
           \<and> ds \<noteq> [] \<and> list_all is_digit ds \<and> CHR 0x0A \<notin> set g"
  using match_here_sound_greedy [OF assms] by blast


lemma match_here_complete:
  assumes "ds \<noteq> []" and "list_all is_digit ds" and "CHR 0x0A \<notin> set g"
  shows "match_here (''Received '' @ ds @ '' RSSI level readings: ['' @ g @ '']'' @ post) \<noteq> None"
proof -
  let ?T = "'' RSSI level readings: [''"
  let ?rest = "?T @ g @ '']'' @ post"
  have digs: "\<forall>c \<in> set ds. is_digit c"
    using assms(2) by (simp add: list_all_iff)
  have nd: "\<not> is_digit (CHR '' '')"
    by (simp add: is_digit_def)
  have tw: "takeWhile is_digit (ds @ ?rest) = ds"
    using digs nd by (simp add: takeWhile_append2)
  have dw: "dropWhile is_digit (ds @ ?rest) = ?rest"
    using digs nd by (simp add: dropWhile_append2)
  have "\<forall>c \<in> set g. c \<noteq> CHR 0x0A"
    using assms(3) by auto
  then have span: "takeWhile (\<lambda>c. c \<noteq> CHR 0x0A) (g @ '']'' @ post) =
      g @ CHR '']'' # takeWhile (\<lambda>c. c \<noteq> CHR 0x0A) post"
    by (simp add: takeWhile_append2)
  have sp1: "strip_prefix ''Received '' (''Received '' @ ds @ ?rest) = Some (ds @ ?rest)"
    by (rule strip_prefix_append)
  have sp2: "strip_prefix ?T ?rest = Some (g @ '']'' @ post)"
    by (rule strip_prefix_append)
  show ?thesis
    unfolding match_here_def sp1 option.case Let_def tw dw sp2 span
    using assms(1) by simp
qed




lemma match_here_greedy:
  assumes "ds \<noteq> []" and "list_all is_digit ds" and "CHR 0x0A \<notin> set g"
    and "CHR '']'' \<notin> set (takeWhile (\<lambda>c. c \<noteq> CHR 0x0A) post)"
  shows "match_here (''Received '' @ ds @ '' RSSI level readings: ['' @ g @ '']'' @ post) = Some g"
proof -
  let ?T = "'' RSSI level readings: [''"
  let ?rest = "?T @ g @ '']'' @ post"
  let ?line = "takeWhile (\<lambda>c. c \<noteq> CHR 0x0A) post"
  have digs: "\<forall>c \<in> set ds. is_digit c"
    using assms(2) by (simp add: list_all_iff)
  have nd: "\<not> is_digit (CHR '' '')"
    by (simp add: is_digit_def)
  have tw: "takeWhile is_digit (ds @ ?rest) = ds"
    using digs nd by (simp add: takeWhile_append2)
  have dw: "dropWhile is_digit (ds @ ?rest) = ?rest"
    using digs nd by (simp add: dropWhile_append2)
  have "\<forall>c \<in> set g. c \<noteq> CHR 0x0A"
    using assms(3) by auto
  then have span: "takeWhile (\<lambda>c. c \<noteq> CHR 0x0A) (g @ '']'' @ post) = g @ CHR '']'' # ?line"
    by (simp add: takeWhile_append2)
  have "dropWhile (\<lambda>c. c \<noteq> CHR '']'') (rev ?line @ CHR '']'' # rev g) =
      dropWhile (\<lambda>c. c \<noteq> CHR '']'') (CHR '']'' # rev g)"
  proof (rule dropWhile_append2)
    fix x
    assume "x \<in> set (rev ?line)"
    with assms(4) show "x \<noteq> CHR '']''"
      by auto
  qed
  then have grp: "rev (tl (dropWhile (\<lambda>c. c \<noteq> CHR '']'') (rev (g @ CHR '']'' # ?line)))) = g"
    by simp
  have sp1: "strip_prefix ''Received '' (''Received '' @ ds @ ?rest) = Some (ds @ ?rest)"
    by (rule strip_prefix_append)
  have sp2: "strip_prefix ?T ?rest = Some (g @ '']'' @ post)"
    by (rule strip_prefix_append)
  show ?thesis
    unfolding match_here_def sp1 option.case Let_def tw dw sp2 span grp
    using assms(1) by simp
qed

lemma pattern_at_iff: "pattern_at s \<longleftrightarrow> match_here s \<noteq> None"
proof
  assume "pattern_at s"
  then obtain ds g post where
    s: "s = ''Received '' @ ds @ '' RSSI level readings: ['' @ g @ '']'' @ post"
    and c: "ds \<noteq> []" "list_all is_digit ds" "CHR 0x0A \<notin> set g"
    unfolding pattern_at_def by blast
  from c show "match_here s \<noteq> None"
    unfolding s by (rule match_here_complete)
next
  assume "match_here s \<noteq> None"
  then obtain g where "match_here s = Some g"
    by blast
  from match_here_sound [OF this] show "pattern_at s"
    unfolding pattern_at_def by blast
qed

lemma re_search_first:
  "re_search s = Some g \<Longrightarrow> \<exists>pre ds post. first_match s pre ds g post"
proof (induction s)
  case Nil
  then show ?case
    by (simp add: match_here_def)
next
  case (Cons c cs)
  show ?case
  proof (cases "match_here (c # cs)")
    case None
    with Cons.prems have "re_search cs = Some g"
      by simp
    from Cons.IH [OF this] obtain pre ds post where f: "first_match cs pre ds g post"
      by blast
    then have lm: "\<not> pattern_at (drop m cs)" if "m < length pre" for m
      unfolding first_match_def using that by blast
    have "\<not> pattern_at (drop n (c # cs))" if "n < length (c # pre)" for n
    proof (cases n)
      case 0
      with None show ?thesis
        by (simp add: pattern_at_iff)
    next
      case (Suc m)
      with that lm [of m] show ?thesis
        by simp
    qed
    with f have "first_match (c # cs) (c # pre) ds g post"
      unfolding first_match_def by simp
    then show ?thesis
      by blast
  next
    case (Some g')
    with Cons.prems have "match_here (c # cs) = Some g"
      by simp
    from match_here_sound_greedy [OF this] obtain ds post where
      "c # cs = ''Received '' @ ds @ '' RSSI level readings: ['' @ g @ '']'' @ post"
      "ds \<noteq> []" "list_all is_digit ds" "CHR 0x0A \<notin> set g"
      "CHR '']'' \<notin> set (takeWhile (\<lambda>c. c \<noteq> CHR 0x0A) post)"
      by blast
    then have "first_match (c # cs) [] ds g post"
      unfolding first_match_def by simp
    then show ?thesis
      by blast
  qed
qed

lemma first_match_re_search:
  "first_match s pre ds g post \<Longrightarrow> re_search s = Some g"
proof (induction pre arbitrary: s)
  case Nil
  then have "match_here s = Some g" and "s \<noteq> []"
    using match_here_greedy [of ds g post] by (simp_all add: first_match_def)
  then show ?case
    by (cases s) simp_all
next
  case (Cons c pre)
  define s' where "s' = pre @ ''Received '' @ ds @ '' RSSI level readings: ['' @ g @ '']'' @ post"
  from Cons.prems have s: "s = c # s'"
    by (simp add: first_match_def s'_def)
  from Cons.prems have "\<not> pattern_at (drop 0 s)"
    unfolding first_match_def by (metis length_greater_0_conv list.distinct(1))
  then have none: "match_here (c # s') = None"
    by (simp add: pattern_at_iff s)
  have "\<not> pattern_at (drop n s')" if "n < length pre" for n
  proof -
    from that have "Suc n < length (c # pre)"
      by simp
    with Cons.prems have "\<not> pattern_at (drop (Suc n) s)"
      unfolding first_match_def by blast
    then show ?thesis
      by (simp add: s)
  qed
  with Cons.prems have "first_match s' pre ds g post"
    unfolding first_match_def s'_def by simp
  from Cons.IH [OF this] none show ?case
    by (simp add: s)
qed

lemma re_search_first_match:
  "re_search s = Some g \<longleftrightarrow> (\<exists>pre ds post. first_match s pre ds g post)"
  using re_search_first first_match_re_search by blast

lemma split_comma_ne: "split_comma s \<noteq> []"
  by (induction s) auto


lemma map_int_InrD: "map_int mx ws = Inr vs \<Longrightarrow> map (py_int mx) ws = map Some vs"
  by (induction ws arbitrary: vs) (auto split: option.splits sum.splits)


lemma map_int_Inl: "map_int mx ws = Inl b \<Longrightarrow> b \<in> set ws \<and> py_int mx b = None"
  by (induction ws) (auto split: option.splits sum.splits)

lemma map_int_length: "map_int mx ws = Inr vs \<Longrightarrow> length vs = length ws"
  by (induction ws arbitrary: vs) (auto split: option.splits sum.splits)

lemma py_int_Nil: "py_int mx [] = None"
  by (simp add: py_int_def strip_ws_def)

lemma map_int_bad:
  "\<not> list_all (\<lambda>w. py_int mx w \<noteq> None) ws \<Longrightarrow>
   \<exists>bad. map_int mx ws = Inl bad \<and> bad \<in> set ws \<and> py_int mx bad = None"
proof (cases "map_int mx ws")
  case (Inl bad)
  with map_int_Inl [OF Inl] show ?thesis by simp
next
  case (Inr vs)
  assume bad: "\<not> list_all (\<lambda>w. py_int mx w \<noteq> None) ws"
  from map_int_InrD [OF Inr] have "\<forall>w \<in> set ws. py_int mx w \<noteq> None"
    by (metis (no_types, lifting) imageE image_eqI list.set_map option.distinct(1))
  with bad show ?thesis
    by (simp add: list_all_iff)
qed



lemma parse_success_nonempty:
  assumes "parse_body mx s = Inr (readings, [])"
  shows "readings \<noteq> []"
proof -
  from assms obtain g where g: "re_search s = Some g"
    and m: "map_int mx (split_comma g) = Inr readings"
    by (auto simp: parse_body_def split: option.splits sum.splits)
  from map_int_length [OF m] split_comma_ne [of g] show ?thesis
    by auto
qed



text \<open>
  C9. \<^verbatim>\<open>parse_rssi_input\<close> never raises: whatever the body of its \<^verbatim>\<open>try\<close> raises ends in
  the handler, which returns the empty list. For an input that matches the pattern but
  whose bracketed group has a piece that is not an integer literal, the result is the empty
  list, by way of the handler; the empty group is such a case, since splitting it gives one
  empty piece. So the line of an empty sweep, \<^verbatim>\<open>Received 0 RSSI level readings: []\<close>, gives
  the same return value as an input without the pattern; the empty list is returned
  exactly when a diagnostic is printed.
\<close>

theorem parse_rssi_input_never_raises:
  "(case parse_body mx input_text of
      Inl bad \<Rightarrow> parse_rssi_input mx input_text = ([], [Error_parsing bad])
    | Inr r \<Rightarrow> parse_rssi_input mx input_text = r)
   \<and> (\<forall>g. re_search input_text = Some g
            \<and> \<not> list_all (\<lambda>w. py_int mx w \<noteq> None) (split_comma g) \<longrightarrow>
          (\<exists>bad. parse_rssi_input mx input_text = ([], [Error_parsing bad])
                \<and> bad \<in> set (split_comma g) \<and> py_int mx bad = None))
   \<and> (re_search input_text = Some [] \<longrightarrow>
          parse_rssi_input mx input_text = ([], [Error_parsing []]))
   \<and> re_search ''Received 0 RSSI level readings: []'' = Some []
   \<and> parse_rssi_input mx ''Received 0 RSSI level readings: []'' = ([], [Error_parsing []])
   \<and> (fst (parse_rssi_input mx input_text) = [] \<longleftrightarrow>
        snd (parse_rssi_input mx input_text) \<noteq> [])"
proof (intro conjI allI impI)
  show "case parse_body mx input_text of
      Inl bad \<Rightarrow> parse_rssi_input mx input_text = ([], [Error_parsing bad])
    | Inr r \<Rightarrow> parse_rssi_input mx input_text = r"
    by (simp add: parse_rssi_input_def split: sum.splits)
next
  fix g
  assume "re_search input_text = Some g
            \<and> \<not> list_all (\<lambda>w. py_int mx w \<noteq> None) (split_comma g)"
  then have g: "re_search input_text = Some g"
    and "\<not> list_all (\<lambda>w. py_int mx w \<noteq> None) (split_comma g)"
    by simp_all
  from map_int_bad [OF this(2)] obtain bad where
    "map_int mx (split_comma g) = Inl bad" "bad \<in> set (split_comma g)" "py_int mx bad = None"
    by blast
  with g show "\<exists>bad. parse_rssi_input mx input_text = ([], [Error_parsing bad])
                \<and> bad \<in> set (split_comma g) \<and> py_int mx bad = None"
    by (simp add: parse_rssi_input_def parse_body_def)
next
  assume "re_search input_text = Some []"
  then show "parse_rssi_input mx input_text = ([], [Error_parsing []])"
    by (simp add: parse_rssi_input_def parse_body_def py_int_Nil)
next
  show e: "re_search ''Received 0 RSSI level readings: []'' = Some []"
    by (simp add: match_here_def is_digit_def)
  show "parse_rssi_input mx ''Received 0 RSSI level readings: []'' = ([], [Error_parsing []])"
    by (simp only: parse_rssi_input_def parse_body_def e)
      (simp add: py_int_Nil)
next
  show "fst (parse_rssi_input mx input_text) = [] \<longleftrightarrow>
        snd (parse_rssi_input mx input_text) \<noteq> []"
  proof (cases "parse_body mx input_text")
    case (Inl bad)
    then show ?thesis
      by (simp add: parse_rssi_input_def)
  next
    case (Inr r)
    show ?thesis
    proof (cases "snd r = []")
      case True
      with Inr have "parse_body mx input_text = Inr (fst r, [])"
        by (metis prod.collapse)
      from parse_success_nonempty [OF this] Inr True show ?thesis
        by (simp add: parse_rssi_input_def)
    next
      case False
      with Inr have "fst r = []"
        by (auto simp: parse_body_def split: option.splits sum.splits)
      with Inr False show ?thesis
        by (simp add: parse_rssi_input_def)
    qed
  qed
qed

theorem parse_rssi_input_never_raises_witness:
  "re_search ''Received 2 RSSI level readings: [-61, n/a]'' = Some ''-61, n/a''
   \<and> \<not> list_all (\<lambda>w. py_int 4300 w \<noteq> None) (split_comma ''-61, n/a'')
   \<and> parse_rssi_input 4300 ''Received 2 RSSI level readings: [-61, n/a]'' =
       ([], [Error_parsing '' n/a''])
   \<and> parse_rssi_input 4300 ''Received 0 RSSI level readings: []'' = ([], [Error_parsing []])
   \<and> fst (parse_rssi_input 4300 ''Received 0 RSSI level readings: []'') =
       fst (parse_rssi_input 4300 ''no sweep here'')"
proof -
  have m: "re_search ''Received 2 RSSI level readings: [-61, n/a]'' = Some ''-61, n/a''"
    by (simp add: match_here_def is_digit_def)
  have b: "\<not> list_all (\<lambda>w. py_int 4300 w \<noteq> None) (split_comma ''-61, n/a'')"
    by (simp add: py_int_def strip_ws_def is_space_def is_digit_def digit_val_def)
  have p: "parse_rssi_input 4300 ''Received 2 RSSI level readings: [-61, n/a]'' =
       ([], [Error_parsing '' n/a''])"
    by (simp only: parse_rssi_input_def parse_body_def m)
      (simp add: py_int_def strip_ws_def is_space_def is_digit_def digit_val_def)
  have n: "parse_rssi_input 4300 ''no sweep here'' = ([], [No_valid_data])"
    by (simp add: parse_rssi_input_def parse_body_def match_here_def)
  from m b p n
    parse_rssi_input_never_raises [of 4300 "''Received 2 RSSI level readings: [-61, n/a]''"]
  show ?thesis
    by simp
qed

section \<open>Properties of the queue, the log and the export\<close>

lemma sweeps_nonempty: "d \<in> set (sweeps q) \<Longrightarrow> d \<noteq> []"
  by (induction q rule: sweeps.induct) (auto split: if_splits)

lemma sweeps_append: "sweeps (p @ q) = sweeps p @ sweeps q"
  by (induction p rule: sweeps.induct) auto

lemma last_sweeps_nonempty: "sweeps q \<noteq> [] \<Longrightarrow> last (sweeps q) \<noteq> []"
  using sweeps_nonempty [of "last (sweeps q)" q] by simp

lemma plot_rssi_ext_twice:
  "l \<noteq> [] \<Longrightarrow> plot_rssi_ext (plot_rssi_ext c d) l = plot_rssi_ext c l"
  by (simp add: plot_rssi_ext_def Let_def)

lemma plot_rssi_basic_twice:
  "l \<noteq> [] \<Longrightarrow> plot_rssi_basic (plot_rssi_basic c d) l = plot_rssi_basic c l"
  by (simp add: plot_rssi_basic_def plot_rssi_axis_unchanged)

lemma log_data_config:
  "mw_start_freq mw' = mw_start_freq mw \<Longrightarrow> mw_end_freq mw' = mw_end_freq mw \<Longrightarrow>
   log_data mw' = log_data mw"
  by (rule ext)+ (simp add: log_data_def)

lemma update_plot_eq:
  "update_plot (mw, w) =
     (drained mw,
      if logging_enabled mw then fold (\<lambda>d w. log_data mw w d) (sweeps (plot_queue mw)) w
      else w)"
proof (induction "plot_queue mw" arbitrary: mw w)
  case Nil
  then have "plot_queue mw = []" by simp
  then show ?case
    by (simp add: update_plot.simps [of mw w] drained_def)
next
  case (Cons data rest)
  then have q: "plot_queue mw = data # rest" by simp
  show ?case
  proof (cases "\<exists>d. data = PyList d \<and> d \<noteq> []")
    case False
    then have item: "plot_item_ext (mw\<lparr>plot_queue := rest\<rparr>, w) data = (mw\<lparr>plot_queue := rest\<rparr>, w)"
      by (auto simp: plot_item_ext_def split: payload.splits)
    from False have sw: "sweeps (data # rest) = sweeps rest"
      by (cases data) auto
    have "update_plot (mw, w) = update_plot (mw\<lparr>plot_queue := rest\<rparr>, w)"
      using q item by (simp add: update_plot.simps [of mw w])
    also have "\<dots> = (drained (mw\<lparr>plot_queue := rest\<rparr>),
        if logging_enabled mw then fold (\<lambda>d w. log_data mw w d) (sweeps rest) w else w)"
      using Cons.hyps(1) [of "mw\<lparr>plot_queue := rest\<rparr>" w]
        log_data_config [of "mw\<lparr>plot_queue := rest\<rparr>" mw]
      by simp
    also have "drained (mw\<lparr>plot_queue := rest\<rparr>) = drained mw"
      using q sw by (simp add: drained_def Let_def)
    also have "sweeps rest = sweeps (plot_queue mw)"
      using q sw by simp
    finally show ?thesis .
  next
    case True
    then obtain d where d: "data = PyList d" "d \<noteq> []" by blast
    define mw1 where "mw1 = mw\<lparr>plot_queue := rest, latest_data := d,
        mw_canvas := plot_rssi_ext (mw_canvas mw) d\<rparr>"
    define w1 where "w1 = (if logging_enabled mw then log_data mw w d else w)"
    have ld: "log_data mw1 = log_data mw"
      by (rule log_data_config) (simp_all add: mw1_def)
    have item: "plot_item_ext (mw\<lparr>plot_queue := rest\<rparr>, w) data = (mw1, w1)"
      using d log_data_config [of "mw\<lparr>plot_queue := rest, latest_data := d,
        mw_canvas := plot_rssi_ext (mw_canvas mw) d\<rparr>" mw]
      by (simp add: plot_item_ext_def Let_def mw1_def w1_def)
    have sw: "sweeps (data # rest) = d # sweeps rest"
      using d by simp
    have "update_plot (mw, w) = update_plot (mw1, w1)"
      using q item by (simp add: update_plot.simps [of mw w])
    also have "\<dots> = (drained mw1,
        if logging_enabled mw1 then fold (\<lambda>d w. log_data mw1 w d) (sweeps (plot_queue mw1)) w1
        else w1)"
      using Cons.hyps(1) [of mw1 w1] by (simp add: mw1_def)
    also have "drained mw1 = drained mw"
      using q sw last_sweeps_nonempty [of rest]
      by (simp add: drained_def Let_def mw1_def plot_rssi_ext_twice)
    also have "(if logging_enabled mw1 then fold (\<lambda>d w. log_data mw1 w d) (sweeps (plot_queue mw1)) w1
        else w1) = (if logging_enabled mw then fold (\<lambda>d w. log_data mw w d) (sweeps (plot_queue mw)) w
        else w)"
      unfolding ld using q sw by (simp add: mw1_def w1_def)
    finally show ?thesis .
  qed
qed

lemma process_plot_queue_eq: "process_plot_queue bw = drained_basic bw"
proof (induction "b_plot_queue bw" arbitrary: bw)
  case Nil
  then have "b_plot_queue bw = []" by simp
  then show ?case
    by (simp add: process_plot_queue.simps [of bw] drained_basic_def)
next
  case (Cons data rest)
  then have q: "b_plot_queue bw = data # rest" by simp
  define bw1 where "bw1 = plot_item_basic (bw\<lparr>b_plot_queue := rest\<rparr>) data"
  have q1: "rest = b_plot_queue bw1"
    by (simp add: bw1_def plot_item_basic_def split: payload.splits)
  have "process_plot_queue bw = process_plot_queue bw1"
    using q by (simp add: process_plot_queue.simps [of bw] bw1_def)
  also have "\<dots> = drained_basic bw1"
    using q1 by (rule Cons.hyps(1))
  also have "\<dots> = drained_basic bw"
  proof (cases "\<exists>d. data = PyList d \<and> d \<noteq> []")
    case False
    then have "bw1 = bw\<lparr>b_plot_queue := rest\<rparr>"
      by (auto simp: bw1_def plot_item_basic_def split: payload.splits)
    moreover from False have "sweeps (data # rest) = sweeps rest"
      by (cases data) auto
    ultimately show ?thesis
      using q by (simp add: drained_basic_def Let_def)
  next
    case True
    then obtain d where d: "data = PyList d" "d \<noteq> []" by blast
    then have "bw1 = bw\<lparr>b_plot_queue := rest,
        b_canvas := plot_rssi_basic (b_canvas bw) d,
        b_status_label := ''Last update: '' @ str_nat (length d) @ '' points''\<rparr>"
      by (simp add: bw1_def plot_item_basic_def)
    moreover have "sweeps (data # rest) = d # sweeps rest"
      using d by simp
    ultimately show ?thesis
      using q last_sweeps_nonempty [of rest]
      by (simp add: drained_basic_def Let_def plot_rssi_basic_twice)
  qed
  finally show ?case .
qed

lemma plot_iteration_queue: "plot_data_queue (plot_iteration st) = drop 1 (plot_data_queue st)"
  by (simp add: plot_iteration_def drop_Suc split: list.splits)

lemma plot_iterations_queue:
  "plot_data_queue ((plot_iteration ^^ n) st) = drop n (plot_data_queue st)"
  by (induction n arbitrary: st) (simp_all add: plot_iteration_queue funpow_swap1 drop_Suc drop_tl)

lemma zip_rows:
  "length xs = length ys \<Longrightarrow>
   map f (zip xs ys) = map (\<lambda>i. f (xs ! i, ys ! i)) [0..<length ys]"
  by (rule nth_equalityI) simp_all

lemma log_data_files:
  "files (log_data mw w data) =
     (files w)(log_path w \<mapsto>
        (case files w (log_path w) of None \<Rightarrow> [log_header] | Some old \<Rightarrow> old)
        @ map (\<lambda>(fr, val). [CStr (now w (now_calls w)), CFloat fr, CInt val])
            (zip (linspace (mw_start_freq mw) (mw_end_freq mw) (length data)) data))"
  by (simp add: log_data_def Let_def split: option.splits)

lemma log_data_path: "log_path (log_data mw w data) = log_path w"
  by (simp add: log_data_def log_path_def Let_def)

lemma ticks_latest:
  "plot_queue mw = [] \<Longrightarrow>
   latest_data (fst (ticks bs (mw, w))) =
     (if sweeps (concat bs) = [] then latest_data mw else last (sweeps (concat bs)))"
proof (induction bs arbitrary: mw w)
  case Nil
  show ?case by simp
next
  case (Cons b bs)
  define mw1 where "mw1 = drained (mw\<lparr>plot_queue := b\<rparr>)"
  obtain w1 where step: "update_plot (mw\<lparr>plot_queue := plot_queue mw @ b\<rparr>, w) = (mw1, w1)"
    using Cons.prems by (simp add: update_plot_eq mw1_def)
  have empty: "plot_queue mw1 = []"
    by (simp add: mw1_def drained_def Let_def)
  have l1: "latest_data mw1 = (if sweeps b = [] then latest_data mw else last (sweeps b))"
    by (simp add: mw1_def drained_def Let_def)
  have "latest_data (fst (ticks (b # bs) (mw, w))) = latest_data (fst (ticks bs (mw1, w1)))"
    using step by simp
  also have "\<dots> = (if sweeps (concat bs) = [] then latest_data mw1 else last (sweeps (concat bs)))"
    by (rule Cons.IH [OF empty])
  finally show ?case
    using l1 by (simp add: sweeps_append)
qed

text \<open>
  C5, as the claim states it, does not hold for the console variant: a pass of its loop
  takes one sweep from the queue, so with two sweeps waiting the queue is not empty after
  the pass.
\<close>

theorem console_iteration_counterexample:
  "plot_data_queue
     (plot_iteration \<lparr>plot_data_queue = [[- 50], [- 60]], axes = None, pauses = 0\<rparr>) =
   [[- 60]]"
  by (simp add: plot_iteration_def)

text \<open>
  C5, amended. In the two GUI variants a timer tick empties the queue without blocking;
  every entry that is a non-empty list is plotted in turn, so that the chart ends up
  showing the last of them (and is left alone when there is none). In the console variant
  a pass of the loop takes at most one sweep, the oldest, plots it and pauses; the queue is
  empty after as many passes as it held sweeps.
\<close>

theorem queue_drain_per_tick:
  "b_plot_queue (process_plot_queue bw) = []
   \<and> b_canvas (process_plot_queue bw) =
       (if sweeps (b_plot_queue bw) = [] then b_canvas bw
        else plot_rssi_basic (b_canvas bw) (last (sweeps (b_plot_queue bw))))
   \<and> plot_queue (fst (update_plot (mw, w))) = []
   \<and> mw_canvas (fst (update_plot (mw, w))) =
       (if sweeps (plot_queue mw) = [] then mw_canvas mw
        else plot_rssi_ext (mw_canvas mw) (last (sweeps (plot_queue mw))))
   \<and> plot_data_queue (plot_iteration st) = drop 1 (plot_data_queue st)
   \<and> axes (plot_iteration st) =
       (case plot_data_queue st of [] \<Rightarrow> axes st | r # rest \<Rightarrow> Some (frequencies r, r))
   \<and> pauses (plot_iteration st) =
       (case plot_data_queue st of [] \<Rightarrow> pauses st | r # rest \<Rightarrow> Suc (pauses st))
   \<and> plot_data_queue ((plot_iteration ^^ length (plot_data_queue st)) st) = []"
proof -
  have "b_plot_queue (drained_basic bw) = []"
    and "b_canvas (drained_basic bw) =
       (if sweeps (b_plot_queue bw) = [] then b_canvas bw
        else plot_rssi_basic (b_canvas bw) (last (sweeps (b_plot_queue bw))))"
    by (simp_all add: drained_basic_def Let_def)
  moreover have "plot_queue (drained mw) = []"
    and "mw_canvas (drained mw) =
       (if sweeps (plot_queue mw) = [] then mw_canvas mw
        else plot_rssi_ext (mw_canvas mw) (last (sweeps (plot_queue mw))))"
    by (simp_all add: drained_def Let_def)
  moreover have "axes (plot_iteration st) =
       (case plot_data_queue st of [] \<Rightarrow> axes st | r # rest \<Rightarrow> Some (frequencies r, r))"
    and "pauses (plot_iteration st) =
       (case plot_data_queue st of [] \<Rightarrow> pauses st | r # rest \<Rightarrow> Suc (pauses st))"
    by (simp_all add: plot_iteration_def split: list.splits)
  ultimately show ?thesis
    by (simp add: process_plot_queue_eq update_plot_eq plot_iteration_queue
        plot_iterations_queue)
qed

theorem queue_drain_per_tick_witness:
  "plot_queue (fst (update_plot
      (init_main_window\<lparr>plot_queue := [PyList [- 50], NotAList, PyList [], PyList [- 60, - 61]]\<rparr>,
       \<lparr>files = Map.empty, home = ''/home/u'', now = (\<lambda>n. ''2024-01-01 00:00:00''),
        now_calls = 0\<rparr>))) = []
   \<and> plotted (mw_canvas (fst (update_plot
      (init_main_window\<lparr>plot_queue := [PyList [- 50], NotAList, PyList [], PyList [- 60, - 61]]\<rparr>,
       \<lparr>files = Map.empty, home = ''/home/u'', now = (\<lambda>n. ''2024-01-01 00:00:00''),
        now_calls = 0\<rparr>)))) = Some ([2399, 2485], [- 60, - 61])
   \<and> plot_data_queue ((plot_iteration ^^ 2)
        \<lparr>plot_data_queue = [[- 50], [- 60]], axes = None, pauses = 0\<rparr>) = []"
  using queue_drain_per_tick [of
      "\<lparr>b_plot_queue = [], b_start_freq = 0, b_end_freq = 0, b_freq_step = 0, b_rssi_min = 0,
        b_rssi_max = 0, b_canvas = default_canvas, b_status_label = []\<rparr>"
      "init_main_window\<lparr>plot_queue := [PyList [- 50], NotAList, PyList [], PyList [- 60, - 61]]\<rparr>"
      "\<lparr>files = Map.empty, home = ''/home/u'', now = (\<lambda>n. ''2024-01-01 00:00:00''),
        now_calls = 0\<rparr>"
      "\<lparr>plot_data_queue = [[- 50], [- 60]], axes = None, pauses = 0\<rparr>"]
  by (simp add: init_main_window_def default_canvas_def plot_rssi_ext_def linspace_def
      DEFAULT_START_FREQ_def DEFAULT_END_FREQ_def numeral_2_eq_2)

text \<open>
  C8. In the extended GUI, after a drain of the queue the window is what it was before,
  except that the queue is empty and, when the queue held a non-empty list, the last of
  them is \<^verbatim>\<open>latest_data\<close> and is what the chart shows: nothing else of the sweeps drained
  remains in the window. Over any run of ticks that starts with an empty queue,
  \<^verbatim>\<open>latest_data\<close> is the last non-empty list delivered so far (and keeps its value while
  there is none; it starts as the empty list). Rows appended to the log file are not part
  of the window's state.
\<close>

theorem latest_data_is_last_sweep:
  "fst (update_plot (mw, w)) =
     (if sweeps (plot_queue mw) = [] then mw\<lparr>plot_queue := []\<rparr>
      else mw\<lparr>plot_queue := [], latest_data := last (sweeps (plot_queue mw)),
              mw_canvas := plot_rssi_ext (mw_canvas mw) (last (sweeps (plot_queue mw)))\<rparr>)
   \<and> (plot_queue mw = [] \<longrightarrow>
        latest_data (fst (ticks bs (mw, w))) =
          (if sweeps (concat bs) = [] then latest_data mw else last (sweeps (concat bs))))
   \<and> latest_data init_main_window = [] \<and> plot_queue init_main_window = []"
  by (simp add: update_plot_eq drained_def Let_def ticks_latest init_main_window_def)

theorem latest_data_is_last_sweep_witness:
  "plot_queue init_main_window = []
   \<and> latest_data (fst (ticks [[PyList [- 50], PyList [- 51]], [], [NotAList, PyList [- 60, - 61], PyList []]]
        (init_main_window,
         \<lparr>files = Map.empty, home = ''/home/u'', now = (\<lambda>n. ''2024-01-01 00:00:00''),
          now_calls = 0\<rparr>))) = [- 60, - 61]"
  using latest_data_is_last_sweep [of init_main_window
      "\<lparr>files = Map.empty, home = ''/home/u'', now = (\<lambda>n. ''2024-01-01 00:00:00''),
        now_calls = 0\<rparr>"
      "[[PyList [- 50], PyList [- 51]], [], [NotAList, PyList [- 60, - 61], PyList []]]"]
  by (simp add: init_main_window_def)

lemma log_rows_no_header:
  "log_header \<notin> set (map (\<lambda>(fr, val). [CStr ts, CFloat fr, CInt val]) (zip fs ds))"
  by (auto simp: log_header_def)

lemma fold_log_data_other:
  "q \<noteq> log_path w \<Longrightarrow> files (fold (\<lambda>d w. log_data mw w d) ds w) q = files w q"
proof (induction ds arbitrary: w)
  case Nil
  show ?case by simp
next
  case (Cons d ds)
  from Cons.prems have "q \<noteq> log_path (log_data mw w d)"
    by (simp add: log_data_path)
  from Cons.IH [OF this] Cons.prems show ?case
    by (simp add: log_data_files)
qed

lemma fold_log_data_path: "log_path (fold (\<lambda>d w. log_data mw w d) ds w) = log_path w"
  by (induction ds arbitrary: w) (simp_all add: log_data_path)

lemma fold_log_data_appends:
  "\<exists>added.
     files (fold (\<lambda>d w. log_data mw w d) ds w) (log_path w) =
       (if ds = [] then files w (log_path w)
        else Some ((case files w (log_path w) of None \<Rightarrow> [log_header] | Some old \<Rightarrow> old)
                   @ added))
     \<and> log_header \<notin> set added \<and> length added = sum_list (map length ds)"
proof (induction ds arbitrary: w)
  case Nil
  show ?case by simp
next
  case (Cons d ds)
  define base where
    "base = (case files w (log_path w) of None \<Rightarrow> [log_header] | Some old \<Rightarrow> old)"
  define rows where
    "rows = map (\<lambda>(fr, val). [CStr (now w (now_calls w)), CFloat fr, CInt val])
              (zip (linspace (mw_start_freq mw) (mw_end_freq mw) (length d)) d)"
  define w1 where "w1 = log_data mw w d"
  have p1: "log_path w1 = log_path w"
    by (simp add: w1_def log_data_path)
  have f1: "files w1 (log_path w) = Some (base @ rows)"
    by (simp add: w1_def log_data_files base_def rows_def)
  have len: "length rows = length d"
    by (simp add: rows_def length_linspace)
  have nh: "log_header \<notin> set rows"
    unfolding rows_def by (rule log_rows_no_header)
  from Cons.IH [of w1] obtain added where
    a0: "files (fold (\<lambda>d w. log_data mw w d) ds w1) (log_path w1) =
         (if ds = [] then files w1 (log_path w1)
          else Some ((case files w1 (log_path w1) of None \<Rightarrow> [log_header] | Some old \<Rightarrow> old)
                     @ added))"
    and b: "log_header \<notin> set added" "length added = sum_list (map length ds)"
    by blast
  have a: "files (fold (\<lambda>d w. log_data mw w d) ds w1) (log_path w) =
         (if ds = [] then Some (base @ rows) else Some ((base @ rows) @ added))"
    using a0 by (simp add: p1 f1)
  show ?case
  proof (cases "ds = []")
    case True
    with a nh len show ?thesis
      by (intro exI [of _ rows]) (simp add: w1_def base_def)
  next
    case False
    with a b nh len show ?thesis
      by (intro exI [of _ "rows @ added"]) (simp add: w1_def base_def)
  qed
qed

text \<open>
  C7, as the claim states it, does not hold: the export writes, with mode \<^verbatim>\<open>'w'\<close>, to the
  path the user chooses in the save dialog, and nothing keeps that path from being the
  log's. Then the log is opened for writing and what it held is replaced by the export.
\<close>

theorem export_over_log_counterexample:
  "files (log_data init_main_window fresh_world [- 50]) (log_path fresh_world) =
     Some [log_header, [CStr ''2024-05-01 12:00:00'', CFloat 2399, CInt (- 50)]]
   \<and> files (snd (export_csv (init_main_window\<lparr>latest_data := [- 50]\<rparr>) (log_path fresh_world)
                   (log_data init_main_window fresh_world [- 50])))
        (log_path fresh_world) =
     Some [export_header, [CFloat 2399, CInt (- 50)]]
   \<and> log_path fresh_world = ''/home/user/rssi_log.csv''
   \<and> export_header \<noteq> log_header"
  by (simp add: log_data_files export_csv_def log_path_def fresh_world_def init_main_window_def
      linspace_one DEFAULT_START_FREQ_def log_header_def export_header_def log_data_def)

text \<open>
  C7, amended. Logging only appends to \<^verbatim>\<open>~/rssi_log.csv\<close>: a drain with logging enabled
  logs the sweeps it plots, in order, and after any number of log calls the file is what
  it held before (or, when it did not exist, the header row Timestamp / Frequency (MHz) /
  RSSI (dBm)), followed by one added row per reading, none of which is the header; no
  other file changes. An export that goes ahead replaces the file at the chosen path by
  the header Frequency (MHz) / RSSI (dBm) followed by one row per reading of the latest
  sweep and changes no other file; an export without data or without a path changes no
  file.
\<close>

theorem log_appends_export_replaces:
  "snd (update_plot (mw, w)) =
     (if logging_enabled mw then fold (\<lambda>d w. log_data mw w d) (sweeps (plot_queue mw)) w
      else w)
   \<and> (\<exists>added.
         files (fold (\<lambda>d w. log_data mw w d) ds w) (log_path w) =
           (if ds = [] then files w (log_path w)
            else Some ((case files w (log_path w) of None \<Rightarrow> [log_header] | Some old \<Rightarrow> old)
                       @ added))
         \<and> log_header \<notin> set added \<and> length added = sum_list (map length ds))
   \<and> (\<forall>q. q \<noteq> log_path w \<longrightarrow> files (fold (\<lambda>d w. log_data mw w d) ds w) q = files w q)
   \<and> (latest_data mw \<noteq> [] \<and> path \<noteq> [] \<longrightarrow>
        files (snd (export_csv mw path w)) =
          (files w)(path \<mapsto> export_header #
             map (\<lambda>(fr, val). [CFloat fr, CInt val])
               (zip (linspace (mw_start_freq mw) (mw_end_freq mw) (length (latest_data mw)))
                    (latest_data mw)))
        \<and> length (map (\<lambda>(fr, val). [CFloat fr, CInt val])
               (zip (linspace (mw_start_freq mw) (mw_end_freq mw) (length (latest_data mw)))
                    (latest_data mw))) = length (latest_data mw))
   \<and> (latest_data mw = [] \<or> path = [] \<longrightarrow> files (snd (export_csv mw path w)) = files w)"
proof (intro conjI)
  show "snd (update_plot (mw, w)) =
     (if logging_enabled mw then fold (\<lambda>d w. log_data mw w d) (sweeps (plot_queue mw)) w
      else w)"
    by (simp add: update_plot_eq)
  show "\<exists>added.
         files (fold (\<lambda>d w. log_data mw w d) ds w) (log_path w) =
           (if ds = [] then files w (log_path w)
            else Some ((case files w (log_path w) of None \<Rightarrow> [log_header] | Some old \<Rightarrow> old)
                       @ added))
         \<and> log_header \<notin> set added \<and> length added = sum_list (map length ds)"
    by (rule fold_log_data_appends)
  show "\<forall>q. q \<noteq> log_path w \<longrightarrow> files (fold (\<lambda>d w. log_data mw w d) ds w) q = files w q"
    by (simp add: fold_log_data_other)
  show "latest_data mw \<noteq> [] \<and> path \<noteq> [] \<longrightarrow>
        files (snd (export_csv mw path w)) =
          (files w)(path \<mapsto> export_header #
             map (\<lambda>(fr, val). [CFloat fr, CInt val])
               (zip (linspace (mw_start_freq mw) (mw_end_freq mw) (length (latest_data mw)))
                    (latest_data mw)))
        \<and> length (map (\<lambda>(fr, val). [CFloat fr, CInt val])
               (zip (linspace (mw_start_freq mw) (mw_end_freq mw) (length (latest_data mw)))
                    (latest_data mw))) = length (latest_data mw)"
    by (simp add: export_csv_def Let_def length_linspace)
  show "latest_data mw = [] \<or> path = [] \<longrightarrow> files (snd (export_csv mw path w)) = files w"
    by (auto simp: export_csv_def)
qed

theorem log_appends_export_replaces_witness:
  "files (snd (update_plot
       (init_main_window\<lparr>logging_enabled := True, plot_queue := [PyList [- 50, - 60]]\<rparr>,
        fresh_world))) (log_path fresh_world) =
     Some [log_header,
           [CStr ''2024-05-01 12:00:00'', CFloat 2399, CInt (- 50)],
           [CStr ''2024-05-01 12:00:00'', CFloat 2485, CInt (- 60)]]
   \<and> ''/home/user/rssi_export.csv'' \<noteq> log_path fresh_world
   \<and> files (fold (\<lambda>d w. log_data init_main_window w d) [[- 50, - 60]] fresh_world)
        ''/home/user/rssi_export.csv'' = None
   \<and> latest_data (init_main_window\<lparr>latest_data := [- 50, - 60]\<rparr>) \<noteq> []
   \<and> files (snd (export_csv (init_main_window\<lparr>latest_data := [- 50, - 60]\<rparr>)
        ''/home/user/rssi_export.csv'' fresh_world)) ''/home/user/rssi_export.csv'' =
     Some [export_header, [CFloat 2399, CInt (- 50)], [CFloat 2485, CInt (- 60)]]"
proof -
  have cfg: "log_data (init_main_window\<lparr>logging_enabled := True, plot_queue := [PyList [- 50, - 60]]\<rparr>)
      = log_data init_main_window"
    by (rule log_data_config) simp_all
  have ls: "linspace 2399 2485 (Suc (Suc 0)) = [2399, 2485]"
    by (simp add: linspace_def)
  show ?thesis
    using log_appends_export_replaces [of
        "init_main_window\<lparr>logging_enabled := True, plot_queue := [PyList [- 50, - 60]]\<rparr>"
        fresh_world "[[- 50, - 60]]" "''/home/user/rssi_export.csv''"]
      log_appends_export_replaces [of
        "init_main_window\<lparr>latest_data := [- 50, - 60]\<rparr>"
        fresh_world "[[- 50, - 60]]" "''/home/user/rssi_export.csv''"]
    by (simp add: cfg ls log_data_files log_path_def fresh_world_def init_main_window_def
        DEFAULT_START_FREQ_def DEFAULT_END_FREQ_def)
qed

text \<open>
  C4. In the extended GUI the rows that logging appends and the rows that the export
  writes after its header are, for \<open>i = 0, ..., N - 1\<close> in this order, the \<open>i\<close>-th
  frequency of \<^verbatim>\<open>np.linspace(start, end, N)\<close> paired with the \<open>i\<close>-th reading of the sweep
  (after the timestamp, when logging). That frequency is
  \<open>start + i * (end - start) / (N - 1)\<close> when \<open>N \<ge> 2\<close>, and the start frequency when
  \<open>N = 1\<close>.
\<close>

theorem csv_rows_pair_in_order:
  "files (log_data mw w data) (log_path w) =
     Some ((case files w (log_path w) of None \<Rightarrow> [log_header] | Some old \<Rightarrow> old)
           @ map (\<lambda>i. [CStr (now w (now_calls w)),
                       CFloat (linspace (mw_start_freq mw) (mw_end_freq mw) (length data) ! i),
                       CInt (data ! i)]) [0..<length data])
   \<and> (latest_data mw \<noteq> [] \<and> path \<noteq> [] \<longrightarrow>
        files (snd (export_csv mw path w)) path =
          Some (export_header #
                map (\<lambda>i. [CFloat (linspace (mw_start_freq mw) (mw_end_freq mw)
                                     (length (latest_data mw)) ! i),
                           CInt (latest_data mw ! i)]) [0..<length (latest_data mw)]))
   \<and> (\<forall>i. 2 \<le> length data \<and> i < length data \<longrightarrow>
          linspace (mw_start_freq mw) (mw_end_freq mw) (length data) ! i =
            mw_start_freq mw
            + of_nat i * ((mw_end_freq mw - mw_start_freq mw) / of_nat (length data - 1)))
   \<and> (length data = 1 \<longrightarrow>
          linspace (mw_start_freq mw) (mw_end_freq mw) (length data) = [mw_start_freq mw])"
proof (intro conjI allI impI)
  show "files (log_data mw w data) (log_path w) =
     Some ((case files w (log_path w) of None \<Rightarrow> [log_header] | Some old \<Rightarrow> old)
           @ map (\<lambda>i. [CStr (now w (now_calls w)),
                       CFloat (linspace (mw_start_freq mw) (mw_end_freq mw) (length data) ! i),
                       CInt (data ! i)]) [0..<length data])"
    by (simp add: log_data_files zip_rows length_linspace)
next
  assume "latest_data mw \<noteq> [] \<and> path \<noteq> []"
  then show "files (snd (export_csv mw path w)) path =
          Some (export_header #
                map (\<lambda>i. [CFloat (linspace (mw_start_freq mw) (mw_end_freq mw)
                                     (length (latest_data mw)) ! i),
                           CInt (latest_data mw ! i)]) [0..<length (latest_data mw)])"
    by (simp add: export_csv_def Let_def zip_rows length_linspace)
next
  fix i
  assume "2 \<le> length data \<and> i < length data"
  then show "linspace (mw_start_freq mw) (mw_end_freq mw) (length data) ! i =
            mw_start_freq mw
            + of_nat i * ((mw_end_freq mw - mw_start_freq mw) / of_nat (length data - 1))"
    by (simp add: linspace_nth)
next
  assume "length data = 1"
  then show "linspace (mw_start_freq mw) (mw_end_freq mw) (length data) = [mw_start_freq mw]"
    by (simp add: linspace_one)
qed

theorem csv_rows_pair_in_order_witness:
  "files (log_data init_main_window fresh_world [- 50, - 60, - 70]) (log_path fresh_world) =
     Some [log_header,
           [CStr ''2024-05-01 12:00:00'', CFloat 2399, CInt (- 50)],
           [CStr ''2024-05-01 12:00:00'', CFloat 2442, CInt (- 60)],
           [CStr ''2024-05-01 12:00:00'', CFloat 2485, CInt (- 70)]]
   \<and> files (snd (export_csv (init_main_window\<lparr>latest_data := [- 50, - 60, - 70]\<rparr>)
        ''/tmp/out.csv'' fresh_world)) ''/tmp/out.csv'' =
     Some [export_header,
           [CFloat 2399, CInt (- 50)], [CFloat 2442, CInt (- 60)], [CFloat 2485, CInt (- 70)]]"
proof -
  have ls: "linspace 2399 2485 (Suc (Suc (Suc 0))) = [2399, 2442, 2485]"
    by (simp add: linspace_def upt_conv_Cons)
  show ?thesis
    using csv_rows_pair_in_order [of init_main_window fresh_world "[- 50, - 60, - 70]"
        "''/tmp/out.csv''"]
      csv_rows_pair_in_order [of "init_main_window\<lparr>latest_data := [- 50, - 60, - 70]\<rparr>"
        fresh_world "[- 50, - 60, - 70]" "''/tmp/out.csv''"]
    by (simp add: ls log_path_def fresh_world_def init_main_window_def
        DEFAULT_START_FREQ_def DEFAULT_END_FREQ_def upt_conv_Cons)
qed

section \<open>Properties of the scan session\<close>

lemma monitor_more_fuel:
  "monitor fuel g dev tr = Some res \<Longrightarrow> monitor (fuel + k) g dev tr = Some res"
proof (induction fuel arbitrary: tr)
  case 0
  then show ?case by simp
next
  case (Suc fuel)
  then show ?case
    by (auto split: if_splits outcome.splits)
qed

lemma monitor_ends:
  "stop_event_at dev (length tr + 3 * n)
     \<or> is_scanning_at dev (length tr + 3 * n + 1) \<noteq> Ret True \<Longrightarrow>
   \<exists>res. monitor (Suc n) g dev tr = Some res"
proof (induction n arbitrary: tr)
  case 0
  then show ?case
    by (cases "is_scanning_at dev (Suc (length tr))") (auto simp: is_set_def)
next
  case (Suc n)
  have e: "length (tr @ [IsSet False, IsScanning, Sleep (poll_interval g)]) + 3 * n =
      length tr + 3 * Suc n"
    by simp
  have "stop_event_at dev (length (tr @ [IsSet False, IsScanning, Sleep (poll_interval g)]) + 3 * n)
     \<or> is_scanning_at dev
          (length (tr @ [IsSet False, IsScanning, Sleep (poll_interval g)]) + 3 * n + 1)
        \<noteq> Ret True"
    unfolding e by (rule Suc.prems)
  from Suc.IH [OF this] show ?case
    by (auto split: outcome.splits)
qed

lemma monitor_terminates:
  "stays_set dev t \<Longrightarrow> t \<le> length tr + 3 * n \<Longrightarrow>
   \<exists>res. monitor (Suc n) g dev tr = Some res"
  by (rule monitor_ends) (simp add: stays_set_def)

lemma monitor_extends:
  "monitor fuel g dev tr = Some (r, tr') \<Longrightarrow> \<exists>new. tr' = tr @ new"
proof (induction fuel arbitrary: tr)
  case 0
  then show ?case by simp
next
  case (Suc fuel)
  show ?case
  proof (cases "\<not> is_set dev tr \<and> is_scanning_at dev (length tr + 1) = Ret True")
    case True
    with Suc.prems have
      "monitor fuel g dev (tr @ [IsSet False, IsScanning, Sleep (poll_interval g)]) = Some (r, tr')"
      by simp
    from Suc.IH [OF this] show ?thesis
      by auto
  next
    case False
    with Suc.prems show ?thesis
      by (auto split: if_splits outcome.splits)
  qed
qed

lemma sleeps_from_append:
  "sleeps_from t (tr @ new) = sleeps_from t tr + sleeps_from (t - length tr) new"
  by (simp add: sleeps_from_def)

lemma sleeps_from_le: "sleeps_from t tr \<le> sleeps_from 0 tr"
proof -
  have "filter is_sleep tr = filter is_sleep (take t tr) @ filter is_sleep (drop t tr)"
    by (metis append_take_drop_id filter_append)
  then have "length (filter is_sleep tr) =
      length (filter is_sleep (take t tr)) + length (filter is_sleep (drop t tr))"
    by simp
  then show ?thesis
    by (simp add: sleeps_from_def)
qed

lemma status_texts_append: "status_texts (tr @ new) = status_texts tr @ status_texts new"
  by (induction tr rule: status_texts.induct) (auto split: option.splits)

lemma monitor_sleeps:
  assumes "monitor fuel g dev tr = Some (r, tr')" and "stays_set dev t"
  shows "(t \<le> length tr \<longrightarrow> sleeps_from t tr' = sleeps_from t tr)
       \<and> (length tr < t \<longrightarrow> sleeps_from t tr' \<le> 1)"
  using assms(1)
proof (induction fuel arbitrary: tr)
  case 0
  then show ?case by simp
next
  case (Suc fuel)
  show ?case
  proof (cases "is_set dev tr")
    case True
    with Suc.prems have "tr' = tr @ [IsSet True]"
      by simp
    then show ?thesis
      by (simp add: sleeps_from_def is_sleep_def)
  next
    case False
    with assms(2) have late: "length tr < t"
      by (auto simp: is_set_def stays_set_def not_less [symmetric])
    then have none: "sleeps_from t tr = 0"
      by (simp add: sleeps_from_def)
    show ?thesis
    proof (cases "is_scanning_at dev (length tr + 1) = Ret True")
      case no_loop: False
      with Suc.prems False have "tr' = tr @ [IsSet False, IsScanning]"
        by (auto split: outcome.splits if_splits)
      moreover have "sleeps_from 0 [IsSet False, IsScanning] = 0"
        by (simp add: sleeps_from_def is_sleep_def)
      ultimately show ?thesis
        using late none sleeps_from_le [of "t - length tr" "[IsSet False, IsScanning]"]
        by (simp add: sleeps_from_append)
    next
      case True
      define tr1 where "tr1 = tr @ [IsSet False, IsScanning, Sleep (poll_interval g)]"
      from Suc.prems False True have rec: "monitor fuel g dev tr1 = Some (r, tr')"
        by (simp add: tr1_def)
      have "sleeps_from 0 [IsSet False, IsScanning, Sleep (poll_interval g)] = 1"
        by (simp add: sleeps_from_def is_sleep_def)
      then have one: "sleeps_from t tr1 \<le> 1"
        using none
          sleeps_from_le [of "t - length tr" "[IsSet False, IsScanning, Sleep (poll_interval g)]"]
        by (simp add: tr1_def sleeps_from_append)
      have gone: "length tr1 < t \<Longrightarrow> sleeps_from t tr1 = 0"
        by (simp add: sleeps_from_def)
      from Suc.IH [OF rec] one gone late show ?thesis
        by (cases "t \<le> length tr1") auto
    qed
  qed
qed

lemma monitor_frame:
  "monitor fuel g dev tr = Some (r, tr') \<Longrightarrow>
   filter (\<lambda>a. a = Disconnect) tr' = filter (\<lambda>a. a = Disconnect) tr
   \<and> filter is_connect tr' = filter is_connect tr
   \<and> status_texts tr' = status_texts tr"
proof (induction fuel arbitrary: tr)
  case 0
  then show ?case by simp
next
  case (Suc fuel)
  show ?case
  proof (cases "\<not> is_set dev tr \<and> is_scanning_at dev (length tr + 1) = Ret True")
    case True
    with Suc.prems have
      "monitor fuel g dev (tr @ [IsSet False, IsScanning, Sleep (poll_interval g)]) = Some (r, tr')"
      by simp
    from Suc.IH [OF this] show ?thesis
      by (simp add: status_texts_append is_connect_def)
  next
    case False
    with Suc.prems show ?thesis
      by (auto simp: status_texts_append is_connect_def split: if_splits outcome.splits)
  qed
qed

lemma monitor_stopped:
  "is_set dev tr \<Longrightarrow> monitor fuel g dev tr = Some (r, tr') \<Longrightarrow> tr' = tr @ [IsSet True]"
  by (cases fuel) auto

lemma sleeps_from_zero: "sleeps_from 0 tr = 0 \<Longrightarrow> sleeps_from t tr = 0"
  using sleeps_from_le [of t tr] by simp

lemma run_try_props:
  assumes "run_try fuel g dev port = Some (r, tr)"
  shows "filter (\<lambda>a. a = Disconnect) tr = []
      \<and> length (filter is_connect tr) = 1
      \<and> (\<forall>t. stays_set dev t \<longrightarrow>
            sleeps_from t tr \<le> 1 \<and> (t \<le> 3 \<longrightarrow> sleeps_from 0 tr = 0))"
proof (cases "connect_result dev = Ret True \<and> start_scan_result dev = Ret ()")
  case False
  with assms have
    "tr = [Connect port] \<or>
     tr = [Connect port, Callback ''__error__'' (''Failed to connect to '' @ port)] \<or>
     tr = [Connect port, Callback ''__status__'' (connected_message g port), StartScan]"
    by (auto simp: run_try_def Let_def split: outcome.splits if_splits)
  then have "filter (\<lambda>a. a = Disconnect) tr = [] \<and> length (filter is_connect tr) = 1
      \<and> sleeps_from 0 tr = 0"
    by (auto simp: is_connect_def sleeps_from_def is_sleep_def)
  then show ?thesis
    by (simp add: sleeps_from_zero)
next
  case True
  define tr0 where
    "tr0 = [Connect port, Callback ''__status__'' (connected_message g port), StartScan]"
  from assms True obtain rm trm where
    m: "monitor fuel g dev tr0 = Some (rm, trm)"
    by (auto simp: run_try_def tr0_def Let_def split: option.splits)
  from assms True m have
    "tr = trm \<or> tr = trm @ [IsScanning] \<or> tr = trm @ [IsScanning, StopScan]"
    by (auto simp: run_try_def tr0_def Let_def split: outcome.splits if_splits)
  then obtain tl where tl: "tr = trm @ tl"
    and "tl = [] \<or> tl = [IsScanning] \<or> tl = [IsScanning, StopScan]"
    by auto
  then have tlp: "filter (\<lambda>a. a = Disconnect) tl = []" "filter is_connect tl = []"
      "sleeps_from 0 tl = 0"
    by (auto simp: is_connect_def sleeps_from_def is_sleep_def)
  have fr: "filter (\<lambda>a. a = Disconnect) trm = []" "length (filter is_connect trm) = 1"
    using monitor_frame [OF m] by (simp_all add: tr0_def is_connect_def)
  have z0: "sleeps_from 0 tr0 = 0"
    by (simp add: tr0_def sleeps_from_def is_sleep_def)
  have sl: "sleeps_from t tr \<le> 1 \<and> (t \<le> 3 \<longrightarrow> sleeps_from 0 tr = 0)"
    if st: "stays_set dev t" for t
  proof -
    have a: "sleeps_from t trm \<le> 1"
      using monitor_sleeps [OF m st] sleeps_from_zero [OF z0, of t]
      by (cases "t \<le> length tr0") auto
    have b: "sleeps_from 0 trm = 0" if "t \<le> 3"
    proof -
      from that st have "is_set dev tr0"
        by (simp add: is_set_def tr0_def stays_set_def)
      from monitor_stopped [OF this m] z0 show ?thesis
        by (simp add: sleeps_from_def is_sleep_def)
    qed
    from a b tlp(3) show ?thesis
      by (simp add: tl sleeps_from_append sleeps_from_zero)
  qed
  from fr tlp sl show ?thesis
    by (simp add: tl)
qed

lemma run_except_cases:
  "run_except (r, tr) = (r, tr) \<and> (\<forall>m. r \<noteq> Raise (Exception m))
   \<or> (\<exists>m. r = Raise (Exception m)
          \<and> run_except (r, tr) = (Ret (), tr @ [Callback ''__error__'' (''Scanner error: '' @ m)]))"
  by (auto simp: run_except_def split: outcome.splits exn.splits)

lemma run_finally_cases:
  "run_finally dev (r, tr) = (r, tr @ [Disconnect, Callback ''__status__'' ''Disconnected''])
   \<or> (\<exists>e. (\<forall>m. e \<noteq> Exception m) \<and> disconnect_result dev = Raise e
          \<and> run_finally dev (r, tr) = (Raise e, tr @ [Disconnect]))"
  by (auto simp: run_finally_def split: outcome.splits exn.splits)

lemma run_more_fuel:
  "run fuel g dev port = Some res \<Longrightarrow> run (fuel + k) g dev port = Some res"
proof -
  assume a: "run fuel g dev port = Some res"
  have "run_try (fuel + k) g dev port = run_try fuel g dev port"
  proof (cases "monitor fuel g dev
      [Connect port, Callback ''__status__'' (connected_message g port), StartScan]")
    case None
    with a have "connect_result dev \<noteq> Ret True \<or> start_scan_result dev \<noteq> Ret ()"
      by (auto simp: run_def run_try_def Let_def split: outcome.splits if_splits)
    then show ?thesis
      by (auto simp: run_try_def Let_def split: outcome.splits)
  next
    case (Some m)
    from monitor_more_fuel [OF this, of k] Some show ?thesis
      by (simp add: run_try_def Let_def split: outcome.splits)
  qed
  with a show ?thesis
    by (simp add: run_def)
qed

lemma run_terminates:
  "stays_set dev t \<Longrightarrow> \<exists>res. run (Suc t) g dev port = Some res"
proof -
  assume st: "stays_set dev t"
  have "t \<le> length [Connect port, Callback ''__status__'' (connected_message g port), StartScan]
      + 3 * t"
    by simp
  from monitor_terminates [OF st this] obtain rm where
    "monitor (Suc t) g dev
       [Connect port, Callback ''__status__'' (connected_message g port), StartScan] = Some rm"
    by blast
  then have "run_try (Suc t) g dev port \<noteq> None"
    by (auto simp: run_try_def Let_def split: outcome.splits prod.splits)
  then show ?thesis
    by (auto simp: run_def)
qed

lemma run_without_connection:
  "connect_result dev \<noteq> Ret True \<Longrightarrow>
   \<exists>r tr. run fuel g dev port = Some (r, tr) \<and> Disconnect \<in> set tr \<and> sleeps_from 0 tr = 0"
proof -
  assume nc: "connect_result dev \<noteq> Ret True"
  then obtain r0 tr0 where t: "run_try fuel g dev port = Some (r0, tr0)"
    and tr0: "tr0 = [Connect port] \<or>
       tr0 = [Connect port, Callback ''__error__'' (''Failed to connect to '' @ port)]"
    by (cases "connect_result dev") (auto simp: run_try_def)
  obtain r1 tr1 where e: "run_except (r0, tr0) = (r1, tr1)"
    by (cases "run_except (r0, tr0)")
  with run_except_cases [of r0 tr0] have tr1: "tr1 = tr0 \<or> (\<exists>c. tr1 = tr0 @ [Callback ''__error__'' c])"
    by auto
  obtain r tr where f: "run_finally dev (r1, tr1) = (r, tr)"
    by (cases "run_finally dev (r1, tr1)")
  with run_finally_cases [of dev r1 tr1] have
    tr: "tr = tr1 @ [Disconnect, Callback ''__status__'' ''Disconnected''] \<or> tr = tr1 @ [Disconnect]"
    by auto
  from tr0 tr1 tr have "Disconnect \<in> set tr" and "sleeps_from 0 tr = 0"
    by (auto simp: sleeps_from_def is_sleep_def)
  with t e f show ?thesis
    by (simp add: run_def)
qed

lemma run_props:
  assumes "run fuel g dev port = Some (r, tr)"
  shows "\<exists>r0 tr0 tr1.
           run_try fuel g dev port = Some (r0, tr0)
         \<and> (tr1 = tr0 \<and> (\<forall>m. r0 \<noteq> Raise (Exception m))
            \<or> (\<exists>m. r0 = Raise (Exception m)
                    \<and> tr1 = tr0 @ [Callback ''__error__'' (''Scanner error: '' @ m)]))
         \<and> (tr = tr1 @ [Disconnect, Callback ''__status__'' ''Disconnected'']
            \<or> tr = tr1 @ [Disconnect])
         \<and> (\<forall>m. r \<noteq> Raise (Exception m))"
proof -
  from assms obtain r0 tr0 where t: "run_try fuel g dev port = Some (r0, tr0)"
    by (auto simp: run_def split: option.splits)
  obtain r1 tr1 where e: "run_except (r0, tr0) = (r1, tr1)"
    by (cases "run_except (r0, tr0)")
  from assms t e have f: "run_finally dev (r1, tr1) = (r, tr)"
    by (simp add: run_def)
  from run_except_cases [of r0 tr0] e have
    c1: "tr1 = tr0 \<and> (\<forall>m. r0 \<noteq> Raise (Exception m))
            \<or> (\<exists>m. r0 = Raise (Exception m)
                    \<and> tr1 = tr0 @ [Callback ''__error__'' (''Scanner error: '' @ m)])"
    and r1: "\<forall>m. r1 \<noteq> Raise (Exception m)"
    by auto
  from run_finally_cases [of dev r1 tr1] f r1 have
    c2: "tr = tr1 @ [Disconnect, Callback ''__status__'' ''Disconnected''] \<or> tr = tr1 @ [Disconnect]"
    and r: "\<forall>m. r \<noteq> Raise (Exception m)"
    by auto
  from t c1 c2 r show ?thesis
    by blast
qed

text \<open>
  What the loop does for a stop that is not taken back. Let the stop event be set at time
  \<open>t\<close> and stay set. Then \<^verbatim>\<open>ScannerThread.run\<close> returns (fuel \<open>t + 1\<close> is enough, and more
  fuel does not change the result), and among its actions from time \<open>t\<close> on there is at
  most one sleep of the monitoring loop; when the stop comes before the loop starts, there
  is no sleep at all. Whenever \<^verbatim>\<open>run\<close> returns, with or without a stop, it has attempted
  the disconnect exactly once, as its last action but for the status \<^verbatim>\<open>Disconnected\<close>; this
  includes the sessions in which \<^verbatim>\<open>connect\<close> returns \<^verbatim>\<open>False\<close> or raises, which return
  whatever the fuel.
\<close>

lemma run_with_lasting_stop:
  "(stays_set dev t \<longrightarrow> (\<exists>res. run (Suc t) g dev port = Some res))
   \<and> (run fuel g dev port = Some (r, tr) \<longrightarrow>
        run (fuel + k) g dev port = Some (r, tr)
      \<and> (stays_set dev t \<longrightarrow>
           sleeps_from t tr \<le> 1 \<and> (t \<le> 3 \<longrightarrow> sleeps_from 0 tr = 0))
      \<and> length (filter (\<lambda>a. a = Disconnect) tr) = 1
      \<and> (\<exists>pre. Disconnect \<notin> set pre
            \<and> (tr = pre @ [Disconnect]
               \<or> tr = pre @ [Disconnect, Callback ''__status__'' ''Disconnected''])))
   \<and> (connect_result dev \<noteq> Ret True \<longrightarrow>
        (\<exists>r tr. run fuel g dev port = Some (r, tr) \<and> Disconnect \<in> set tr
           \<and> sleeps_from 0 tr = 0))"
proof (intro conjI impI)
  assume "stays_set dev t"
  then show "\<exists>res. run (Suc t) g dev port = Some res"
    by (rule run_terminates)
next
  assume "connect_result dev \<noteq> Ret True"
  then show "\<exists>r tr. run fuel g dev port = Some (r, tr) \<and> Disconnect \<in> set tr
           \<and> sleeps_from 0 tr = 0"
    by (rule run_without_connection)
next
  assume a: "run fuel g dev port = Some (r, tr)"
  then show "run (fuel + k) g dev port = Some (r, tr)"
    by (rule run_more_fuel)
  from run_props [OF a] obtain r0 tr0 tr1 where
    t: "run_try fuel g dev port = Some (r0, tr0)"
    and c1: "tr1 = tr0 \<or> (\<exists>c. tr1 = tr0 @ [Callback ''__error__'' c])"
    and c2: "tr = tr1 @ [Disconnect, Callback ''__status__'' ''Disconnected'']
            \<or> tr = tr1 @ [Disconnect]"
    by blast
  from run_try_props [OF t] have
    nd0: "filter (\<lambda>a. a = Disconnect) tr0 = []"
    and sl0: "\<And>t. stays_set dev t \<Longrightarrow>
            sleeps_from t tr0 \<le> 1 \<and> (t \<le> 3 \<longrightarrow> sleeps_from 0 tr0 = 0)"
    by simp_all
  from c1 nd0 have nd1: "filter (\<lambda>a. a = Disconnect) tr1 = []"
    by auto
  then have nd1': "Disconnect \<notin> set tr1"
    by (auto simp: filter_empty_conv)
  from c2 nd1 show "length (filter (\<lambda>a. a = Disconnect) tr) = 1"
    by auto
  from c2 nd1' show "\<exists>pre. Disconnect \<notin> set pre
            \<and> (tr = pre @ [Disconnect]
               \<or> tr = pre @ [Disconnect, Callback ''__status__'' ''Disconnected''])"
    by blast
  from c1 c2 obtain tl where tl: "tr = tr0 @ tl" and "sleeps_from 0 tl = 0"
    by (auto simp: sleeps_from_def is_sleep_def)
  then have tl0: "\<And>t. sleeps_from t tl = 0"
    by (simp add: sleeps_from_zero)
  show "sleeps_from t tr \<le> 1" if st: "stays_set dev t"
    using sl0 [OF st] tl0 by (simp add: tl sleeps_from_append)
  show "sleeps_from 0 tr = 0" if st: "stays_set dev t" and "t \<le> 3"
    using sl0 [OF st] tl0 that(2) by (simp add: tl sleeps_from_append)
qed

lemma run_stop_after_5:
  "run 6 Basic (good_device\<lparr>stop_event_at := (\<lambda>t. 5 \<le> t)\<rparr>) ''/dev/ttyACM0'' =
     Some (Ret (),
       [Connect ''/dev/ttyACM0'',
        Callback ''__status__'' (connected_message Basic ''/dev/ttyACM0''),
        StartScan, IsSet False, IsScanning, Sleep (1 / 2), IsSet True, IsScanning, StopScan,
        Disconnect, Callback ''__status__'' ''Disconnected''])"
  by (simp add: run_def run_try_def run_except_def run_finally_def is_set_def good_device_def
      poll_interval_def eval_nat_numeral)

lemma run_stop_at_0:
  "run 1 (Extended 1) (good_device\<lparr>stop_event_at := (\<lambda>t. True)\<rparr>) ''/dev/ttyACM0'' =
     Some (Ret (),
       [Connect ''/dev/ttyACM0'', Callback ''__status__'' ''Connected to /dev/ttyACM0'',
        StartScan, IsSet True, IsScanning, StopScan,
        Disconnect, Callback ''__status__'' ''Disconnected''])"
  by (simp add: run_def run_try_def run_except_def run_finally_def is_set_def good_device_def
      connected_message_def)

lemma run_with_lasting_stop_example:
  "stays_set (good_device\<lparr>stop_event_at := (\<lambda>t. 5 \<le> t)\<rparr>) 5
   \<and> run 6 Basic (good_device\<lparr>stop_event_at := (\<lambda>t. 5 \<le> t)\<rparr>) ''/dev/ttyACM0'' =
       Some (Ret (),
         [Connect ''/dev/ttyACM0'',
          Callback ''__status__'' (connected_message Basic ''/dev/ttyACM0''),
          StartScan, IsSet False, IsScanning, Sleep (1 / 2), IsSet True, IsScanning, StopScan,
          Disconnect, Callback ''__status__'' ''Disconnected''])
   \<and> sleeps_from 5
        [Connect ''/dev/ttyACM0'',
         Callback ''__status__'' (connected_message Basic ''/dev/ttyACM0''),
         StartScan, IsSet False, IsScanning, Sleep (1 / 2), IsSet True, IsScanning, StopScan,
         Disconnect, Callback ''__status__'' ''Disconnected''] \<le> 1"
proof -
  have s: "stays_set (good_device\<lparr>stop_event_at := (\<lambda>t. 5 \<le> t)\<rparr>) 5"
    by (simp add: stays_set_def)
  from s run_stop_after_5
    run_with_lasting_stop [of "good_device\<lparr>stop_event_at := (\<lambda>t. 5 \<le> t)\<rparr>" 5 Basic
      "''/dev/ttyACM0''" 6 "Ret ()"
      "[Connect ''/dev/ttyACM0'',
        Callback ''__status__'' (connected_message Basic ''/dev/ttyACM0''),
        StartScan, IsSet False, IsScanning, Sleep (1 / 2), IsSet True, IsScanning, StopScan,
        Disconnect, Callback ''__status__'' ''Disconnected'']" 0]
  show ?thesis
    by simp
qed

text \<open>
  With the stop taken back the loop never sees it. On a device that goes on scanning, and
  with the stop event set at time 5 only, \<^verbatim>\<open>run\<close> does not return, whatever the fuel.
\<close>

lemma monitor_lost_stop:
  "3 dvd length tr \<Longrightarrow>
   monitor fuel g (good_device\<lparr>stop_event_at := (\<lambda>t. t = 5)\<rparr>) tr = None"
proof (induction fuel arbitrary: tr)
  case 0
  then show ?case by simp
next
  case (Suc fuel)
  from Suc.prems have "length tr \<noteq> 5"
    by auto
  moreover have "3 dvd length (tr @ [IsSet False, IsScanning, Sleep (poll_interval g)])"
    using Suc.prems by (simp add: numeral_3_eq_3 [symmetric])
  from Suc.IH [OF this] have
    "monitor fuel g (good_device\<lparr>stop_event_at := (\<lambda>t. t = 5)\<rparr>)
       (tr @ [IsSet False, IsScanning, Sleep (poll_interval g)]) = None" .
  ultimately show ?case
    by (simp add: is_set_def good_device_def)
qed

lemma run_lost_stop_never_returns:
  "run fuel g (good_device\<lparr>stop_event_at := (\<lambda>t. t = 5)\<rparr>) port = None"
proof -
  have "monitor fuel g (good_device\<lparr>stop_event_at := (\<lambda>t. t = 5)\<rparr>)
      [Connect port, Callback ''__status__'' (connected_message g port), StartScan] = None"
    by (rule monitor_lost_stop) (simp add: numeral_3_eq_3 [symmetric])
  then show ?thesis
    by (simp add: run_def run_try_def good_device_def)
qed

text \<open>
  C2. A stop is requested, the stop event is set, and the monitoring loop is to perform at
  most one more sleep and leave. The code does not do this when the stop is followed by a
  new start within the polling interval: the event is shared and the start clears it, so the
  thread that was to stop finds it clear at its next test. On \<open>restarted_device\<close> the event is
  set at time 5, while the thread is in its first sleep, and \<^verbatim>\<open>run\<close> performs three sleeps
  from that time on, at times 5, 8 and 11, leaving the loop only because the device stops
  scanning. The disconnect attempt is made at the end.
\<close>

theorem lost_stop_keeps_polling:
  "stop_event_at restarted_device 5
   \<and> run 4 Basic restarted_device ''/dev/ttyACM0'' =
       Some (Ret (),
         [Connect ''/dev/ttyACM0'',
          Callback ''__status__'' (connected_message Basic ''/dev/ttyACM0''),
          StartScan,
          IsSet False, IsScanning, Sleep (1 / 2),
          IsSet False, IsScanning, Sleep (1 / 2),
          IsSet False, IsScanning, Sleep (1 / 2),
          IsSet False, IsScanning, IsScanning,
          Disconnect, Callback ''__status__'' ''Disconnected''])
   \<and> sleeps_from 5
        [Connect ''/dev/ttyACM0'',
         Callback ''__status__'' (connected_message Basic ''/dev/ttyACM0''),
         StartScan,
         IsSet False, IsScanning, Sleep (1 / 2),
         IsSet False, IsScanning, Sleep (1 / 2),
         IsSet False, IsScanning, Sleep (1 / 2),
         IsSet False, IsScanning, IsScanning,
         Disconnect, Callback ''__status__'' ''Disconnected''] = 3"
  by (simp add: run_def run_try_def run_except_def run_finally_def is_set_def
      restarted_device_def good_device_def poll_interval_def sleeps_from_def is_sleep_def
      eval_nat_numeral)

lemma is_set_disconnect [simp]: "is_set (dev\<lparr>disconnect_result := x\<rparr>) tr = is_set dev tr"
  by (simp add: is_set_def)

lemma monitor_disconnect_result:
  "monitor fuel g (dev\<lparr>disconnect_result := x\<rparr>) tr = monitor fuel g dev tr"
  by (induction fuel arbitrary: tr) (simp_all split: outcome.splits)

lemma run_try_disconnect_result:
  "run_try fuel g (dev\<lparr>disconnect_result := x\<rparr>) port = run_try fuel g dev port"
  by (simp add: run_try_def monitor_disconnect_result Let_def
      cong: outcome.case_cong if_cong option.case_cong prod.case_cong)

lemma run_disconnect_error_silent:
  "run fuel g (dev\<lparr>disconnect_result := Raise (Exception m)\<rparr>) port =
   run fuel g (dev\<lparr>disconnect_result := Ret ()\<rparr>) port"
  by (simp add: run_def run_try_disconnect_result run_finally_def split: option.splits)

lemma poll_frame:
  "poll fuel dev tr = Some (r, tr') \<Longrightarrow> filter is_connect tr' = filter is_connect tr"
proof (induction fuel arbitrary: tr)
  case 0
  then show ?case by simp
next
  case (Suc fuel)
  show ?case
  proof (cases "is_scanning_at dev (length tr) = Ret True \<and> sleep_at dev (length tr + 1) = Ret ()")
    case True
    with Suc.prems have "poll fuel dev (tr @ [IsScanning, Sleep (1 / 2)]) = Some (r, tr')"
      by simp
    from Suc.IH [OF this] show ?thesis
      by (simp add: is_connect_def)
  next
    case False
    with Suc.prems show ?thesis
      by (auto simp: is_connect_def split: outcome.splits if_splits)
  qed
qed

lemma start_scan_try_connects:
  assumes "start_scan_try fuel dev = Some (r, tr)"
  shows "length (filter is_connect tr) = 1"
proof (cases "connect_result dev = Ret True \<and> start_scan_result dev = Ret ()")
  case False
  with assms have
    "tr = [Connect ''/dev/ttyACM0''] \<or>
     tr = [Connect ''/dev/ttyACM0'', Print ''Failed to connect to the device.''] \<or>
     tr = [Connect ''/dev/ttyACM0'', Print ''Starting RSSI scan...'', StartScan]"
    by (auto simp: start_scan_try_def Let_def split: outcome.splits if_splits)
  then show ?thesis
    by (auto simp: is_connect_def)
next
  case True
  define tr0 where
    "tr0 = [Connect ''/dev/ttyACM0'', Print ''Starting RSSI scan...'', StartScan, StartPlotThread]"
  from assms True obtain rp trp where p: "poll fuel dev tr0 = Some (rp, trp)"
    by (auto simp: start_scan_try_def tr0_def Let_def split: option.splits)
  from assms True p have "tr = trp \<or> tr = trp @ [StopScan]"
    by (auto simp: start_scan_try_def tr0_def Let_def split: outcome.splits)
  with poll_frame [OF p] show ?thesis
    by (auto simp: tr0_def is_connect_def)
qed

lemma start_scan_except_cases:
  "start_scan_except (r, tr) = (r, tr) \<and> (\<forall>m. r \<noteq> Raise (Exception m))
   \<or> start_scan_except (r, tr) = (Ret (), tr @ [Print ''Scan interrupted by user.''])
      \<and> r = Raise KeyboardInterrupt
   \<or> (\<exists>m. r = Raise (Exception m)
          \<and> start_scan_except (r, tr) = (Ret (), tr @ [Print (''Error during scan: '' @ m)]))"
  by (auto simp: start_scan_except_def split: outcome.splits exn.splits)

lemma start_scan_finally_cases:
  "disconnect_result dev = Ret ()
     \<and> start_scan_finally dev (r, tr) =
         (r, tr @ [Disconnect, Print ''Disconnected from Airview device.'', Show])
   \<or> (\<exists>m. disconnect_result dev = Raise (Exception m)
          \<and> start_scan_finally dev (r, tr) =
              (r, tr @ [Disconnect, Print (''Error during cleanup: '' @ m), Show]))
   \<or> (\<exists>e. (\<forall>m. e \<noteq> Exception m) \<and> disconnect_result dev = Raise e
          \<and> start_scan_finally dev (r, tr) = (Raise e, tr @ [Disconnect]))"
  by (auto simp: start_scan_finally_def split: outcome.splits exn.splits)

lemma start_scan_props:
  assumes "start_scan fuel dev = Some (r, tr)"
  shows "\<exists>r0 tr0 tr1.
           start_scan_try fuel dev = Some (r0, tr0)
         \<and> (tr1 = tr0 \<and> (\<forall>m. r0 \<noteq> Raise (Exception m))
            \<or> r0 = Raise KeyboardInterrupt \<and> tr1 = tr0 @ [Print ''Scan interrupted by user.'']
            \<or> (\<exists>m. r0 = Raise (Exception m) \<and> tr1 = tr0 @ [Print (''Error during scan: '' @ m)]))
         \<and> (disconnect_result dev = Ret ()
               \<and> tr = tr1 @ [Disconnect, Print ''Disconnected from Airview device.'', Show]
            \<or> (\<exists>m. disconnect_result dev = Raise (Exception m)
                  \<and> tr = tr1 @ [Disconnect, Print (''Error during cleanup: '' @ m), Show])
            \<or> (\<exists>e. (\<forall>m. e \<noteq> Exception m) \<and> disconnect_result dev = Raise e
                  \<and> tr = tr1 @ [Disconnect]))
         \<and> (\<forall>m. r \<noteq> Raise (Exception m))"
proof -
  from assms obtain r0 tr0 where t: "start_scan_try fuel dev = Some (r0, tr0)"
    by (auto simp: start_scan_def split: option.splits)
  obtain r1 tr1 where e: "start_scan_except (r0, tr0) = (r1, tr1)"
    by (cases "start_scan_except (r0, tr0)")
  from assms t e have f: "start_scan_finally dev (r1, tr1) = (r, tr)"
    by (simp add: start_scan_def)
  from start_scan_except_cases [of r0 tr0] e have
    c1: "tr1 = tr0 \<and> (\<forall>m. r0 \<noteq> Raise (Exception m))
            \<or> r0 = Raise KeyboardInterrupt \<and> tr1 = tr0 @ [Print ''Scan interrupted by user.'']
            \<or> (\<exists>m. r0 = Raise (Exception m) \<and> tr1 = tr0 @ [Print (''Error during scan: '' @ m)])"
    and r1: "\<forall>m. r1 \<noteq> Raise (Exception m)"
    by auto
  from start_scan_finally_cases [of dev r1 tr1] f r1 have
    c2: "disconnect_result dev = Ret ()
               \<and> tr = tr1 @ [Disconnect, Print ''Disconnected from Airview device.'', Show]
            \<or> (\<exists>m. disconnect_result dev = Raise (Exception m)
                  \<and> tr = tr1 @ [Disconnect, Print (''Error during cleanup: '' @ m), Show])
            \<or> (\<exists>e. (\<forall>m. e \<noteq> Exception m) \<and> disconnect_result dev = Raise e
                  \<and> tr = tr1 @ [Disconnect])"
    and r: "\<forall>m. r \<noteq> Raise (Exception m)"
    by auto
  from t c1 c2 r show ?thesis
    by blast
qed

lemma run_failed_connect:
  "connect_result dev = Ret False \<Longrightarrow>
   run_try fuel g dev port =
     Some (Ret (), [Connect port, Callback ''__error__'' (''Failed to connect to '' @ port)])"
  by (simp add: run_try_def)

lemma start_scan_failed_connect:
  "connect_result dev = Ret False \<Longrightarrow>
   start_scan_try fuel dev =
     Some (Ret (), [Connect ''/dev/ttyACM0'', Print ''Failed to connect to the device.''])"
  by (simp add: start_scan_try_def)

lemma poll_ends:
  "is_scanning_at dev (length tr + 2 * n) \<noteq> Ret True
     \<or> sleep_at dev (length tr + 2 * n + 1) \<noteq> Ret () \<Longrightarrow>
   \<exists>res. poll (Suc n) dev tr = Some res"
proof (induction n arbitrary: tr)
  case 0
  then show ?case
    by (cases "is_scanning_at dev (length tr)"; cases "sleep_at dev (Suc (length tr))") auto
next
  case (Suc n)
  have e: "length (tr @ [IsScanning, Sleep (1 / 2)]) + 2 * n = length tr + 2 * Suc n"
    by simp
  have "is_scanning_at dev (length (tr @ [IsScanning, Sleep (1 / 2)]) + 2 * n) \<noteq> Ret True
     \<or> sleep_at dev (length (tr @ [IsScanning, Sleep (1 / 2)]) + 2 * n + 1) \<noteq> Ret ()"
    unfolding e by (rule Suc.prems)
  from Suc.IH [OF this] show ?case
    by (auto split: outcome.splits)
qed

lemma run_ends:
  assumes "connect_result dev \<noteq> Ret True \<or> start_scan_result dev \<noteq> Ret ()
     \<or> is_scanning_at dev (3 * n + 4) \<noteq> Ret True"
  shows "\<exists>res. run (Suc n) g dev port = Some res"
proof (cases "connect_result dev = Ret True \<and> start_scan_result dev = Ret ()")
  case False
  then have "run_try (Suc n) g dev port \<noteq> None"
    by (auto simp: run_try_def Let_def split: outcome.splits)
  then show ?thesis
    by (auto simp: run_def)
next
  case True
  have e: "length [Connect port, Callback ''__status__'' (connected_message g port), StartScan]
       + 3 * n + 1 = 3 * n + 4"
    by simp
  have "is_scanning_at dev
      (length [Connect port, Callback ''__status__'' (connected_message g port), StartScan]
       + 3 * n + 1) \<noteq> Ret True"
    unfolding e using assms True by blast
  then obtain rm where
    "monitor (Suc n) g dev
       [Connect port, Callback ''__status__'' (connected_message g port), StartScan] = Some rm"
    using monitor_ends [where dev = dev and n = n and g = g
        and tr = "[Connect port, Callback ''__status__'' (connected_message g port), StartScan]"]
    by blast
  then have "run_try (Suc n) g dev port \<noteq> None"
    by (auto simp: run_try_def Let_def split: outcome.splits prod.splits)
  then show ?thesis
    by (auto simp: run_def)
qed

lemma start_scan_ends:
  assumes "connect_result dev \<noteq> Ret True \<or> start_scan_result dev \<noteq> Ret ()
     \<or> is_scanning_at dev (2 * n + 4) \<noteq> Ret True \<or> sleep_at dev (2 * n + 5) \<noteq> Ret ()"
  shows "\<exists>res. start_scan (Suc n) dev = Some res"
proof (cases "connect_result dev = Ret True \<and> start_scan_result dev = Ret ()")
  case False
  then have "start_scan_try (Suc n) dev \<noteq> None"
    by (auto simp: start_scan_try_def Let_def split: outcome.splits)
  then show ?thesis
    by (auto simp: start_scan_def)
next
  case True
  define tr0 where
    "tr0 = [Connect ''/dev/ttyACM0'', Print ''Starting RSSI scan...'', StartScan, StartPlotThread]"
  have e: "2 * n + 4 + 1 = 2 * n + 5" "length tr0 + 2 * n = 2 * n + 4"
    by (simp_all add: tr0_def)
  have "is_scanning_at dev (length tr0 + 2 * n) \<noteq> Ret True
     \<or> sleep_at dev (length tr0 + 2 * n + 1) \<noteq> Ret ()"
    unfolding e(2) e(1) using assms True by blast
  from poll_ends [OF this] obtain rp where "poll (Suc n) dev tr0 = Some rp"
    by blast
  then have "start_scan_try (Suc n) dev \<noteq> None"
    by (auto simp: start_scan_try_def tr0_def Let_def split: outcome.splits prod.splits)
  then show ?thesis
    by (auto simp: start_scan_def)
qed

text \<open>
  C6, as the claim states it, does not hold: in the GUI variants an error of the
  disconnect is caught by \<^verbatim>\<open>except Exception: pass\<close> and no status text mentions it; the
  thread reports \<^verbatim>\<open>Disconnected\<close> as if the call had succeeded.
\<close>

theorem disconnect_error_not_reported_counterexample:
  "run 1 (Extended 1)
      (finished_device\<lparr>disconnect_result := Raise (Exception ''device busy'')\<rparr>)
      ''/dev/ttyACM0'' =
     Some (Ret (),
       [Connect ''/dev/ttyACM0'', Callback ''__status__'' ''Connected to /dev/ttyACM0'',
        StartScan, IsSet False, IsScanning, IsScanning,
        Disconnect, Callback ''__status__'' ''Disconnected''])
   \<and> status_texts
       [Connect ''/dev/ttyACM0'', Callback ''__status__'' ''Connected to /dev/ttyACM0'',
        StartScan, IsSet False, IsScanning, IsScanning,
        Disconnect, Callback ''__status__'' ''Disconnected''] =
     [''Connected to /dev/ttyACM0'', ''Disconnected'']"
  by (simp add: run_def run_try_def run_except_def run_finally_def is_set_def
      finished_device_def good_device_def connected_message_def status_text_def)

text \<open>
  C6, amended. A session in which connecting or starting the scan fails, or in which the
  library at some test of the monitoring loop raises or reports that it scans no more,
  comes to an end. No \<^verbatim>\<open>Exception\<close> leaves \<^verbatim>\<open>ScannerThread.run\<close> or the console's
  \<^verbatim>\<open>start_scan\<close>, and neither connects more than once. A connection that fails and an
  \<^verbatim>\<open>Exception\<close> raised while connecting or scanning are reported as a status text
  (\<^verbatim>\<open>ERROR: Failed to connect to ...\<close>, \<^verbatim>\<open>ERROR: Scanner error: ...\<close>) in the GUI variants and
  as a printed line in the console variant. An \<^verbatim>\<open>Exception\<close> of the disconnect is printed
  in the console variant (\<^verbatim>\<open>Error during cleanup: ...\<close>); in the GUI variants it is
  discarded: the session is the same as with a disconnect that succeeds.
\<close>

theorem failures_reported_not_raised:
  "(connect_result dev \<noteq> Ret True \<or> start_scan_result dev \<noteq> Ret ()
      \<or> is_scanning_at dev (3 * n + 4) \<noteq> Ret True \<longrightarrow>
        (\<exists>res. run (Suc n) g dev port = Some res))
   \<and> (connect_result dev \<noteq> Ret True \<or> start_scan_result dev \<noteq> Ret ()
      \<or> is_scanning_at dev (2 * n + 4) \<noteq> Ret True \<or> sleep_at dev (2 * n + 5) \<noteq> Ret () \<longrightarrow>
        (\<exists>res. start_scan (Suc n) dev = Some res))
   \<and> (run fuel g dev port = Some (r, tr) \<longrightarrow>
        (\<forall>m. r \<noteq> Raise (Exception m))
      \<and> length (filter is_connect tr) = 1
      \<and> (connect_result dev = Ret False \<longrightarrow>
           ''ERROR: Failed to connect to '' @ port \<in> set (status_texts tr))
      \<and> (\<forall>m tr0. run_try fuel g dev port = Some (Raise (Exception m), tr0) \<longrightarrow>
           ''ERROR: Scanner error: '' @ m \<in> set (status_texts tr)))
   \<and> run fuel g (dev\<lparr>disconnect_result := Raise (Exception m')\<rparr>) port =
      run fuel g (dev\<lparr>disconnect_result := Ret ()\<rparr>) port
   \<and> (start_scan fuel dev = Some (r', tr') \<longrightarrow>
        (\<forall>m. r' \<noteq> Raise (Exception m))
      \<and> length (filter is_connect tr') = 1
      \<and> (connect_result dev = Ret False \<longrightarrow>
           Print ''Failed to connect to the device.'' \<in> set tr')
      \<and> (\<forall>m tr0. start_scan_try fuel dev = Some (Raise (Exception m), tr0) \<longrightarrow>
           Print (''Error during scan: '' @ m) \<in> set tr')
      \<and> (\<forall>m. disconnect_result dev = Raise (Exception m) \<longrightarrow>
           Print (''Error during cleanup: '' @ m) \<in> set tr'))"
proof (intro conjI)
  show "connect_result dev \<noteq> Ret True \<or> start_scan_result dev \<noteq> Ret ()
      \<or> is_scanning_at dev (3 * n + 4) \<noteq> Ret True \<longrightarrow>
        (\<exists>res. run (Suc n) g dev port = Some res)"
    using run_ends by blast
next
  show "connect_result dev \<noteq> Ret True \<or> start_scan_result dev \<noteq> Ret ()
      \<or> is_scanning_at dev (2 * n + 4) \<noteq> Ret True \<or> sleep_at dev (2 * n + 5) \<noteq> Ret () \<longrightarrow>
        (\<exists>res. start_scan (Suc n) dev = Some res)"
    using start_scan_ends by blast
next
  show "run fuel g (dev\<lparr>disconnect_result := Raise (Exception m')\<rparr>) port =
      run fuel g (dev\<lparr>disconnect_result := Ret ()\<rparr>) port"
    by (rule run_disconnect_error_silent)
next
  show "run fuel g dev port = Some (r, tr) \<longrightarrow>
        (\<forall>m. r \<noteq> Raise (Exception m))
      \<and> length (filter is_connect tr) = 1
      \<and> (connect_result dev = Ret False \<longrightarrow>
           ''ERROR: Failed to connect to '' @ port \<in> set (status_texts tr))
      \<and> (\<forall>m tr0. run_try fuel g dev port = Some (Raise (Exception m), tr0) \<longrightarrow>
           ''ERROR: Scanner error: '' @ m \<in> set (status_texts tr))"
  proof
    assume a: "run fuel g dev port = Some (r, tr)"
    from run_props [OF a] obtain r0 tr0 tr1 where
      t: "run_try fuel g dev port = Some (r0, tr0)"
      and c1: "tr1 = tr0 \<and> (\<forall>m. r0 \<noteq> Raise (Exception m))
            \<or> (\<exists>m. r0 = Raise (Exception m)
                    \<and> tr1 = tr0 @ [Callback ''__error__'' (''Scanner error: '' @ m)])"
      and c2: "tr = tr1 @ [Disconnect, Callback ''__status__'' ''Disconnected'']
            \<or> tr = tr1 @ [Disconnect]"
      and r: "\<forall>m. r \<noteq> Raise (Exception m)"
      by blast
    from run_try_props [OF t] have "length (filter is_connect tr0) = 1"
      by simp
    with c1 c2 have n: "length (filter is_connect tr) = 1"
      by (auto simp: is_connect_def)
    have f: "''ERROR: Failed to connect to '' @ port \<in> set (status_texts tr)"
      if "connect_result dev = Ret False"
      using run_failed_connect [OF that, of fuel g port] t c1 c2
      by (auto simp: status_texts_append status_text_def)
    have e: "''ERROR: Scanner error: '' @ m \<in> set (status_texts tr)"
      if "run_try fuel g dev port = Some (Raise (Exception m), tr0')" for m tr0'
      using that t c1 c2 by (auto simp: status_texts_append status_text_def)
    from r n f e show "(\<forall>m. r \<noteq> Raise (Exception m))
      \<and> length (filter is_connect tr) = 1
      \<and> (connect_result dev = Ret False \<longrightarrow>
           ''ERROR: Failed to connect to '' @ port \<in> set (status_texts tr))
      \<and> (\<forall>m tr0. run_try fuel g dev port = Some (Raise (Exception m), tr0) \<longrightarrow>
           ''ERROR: Scanner error: '' @ m \<in> set (status_texts tr))"
      by blast
  qed
next
  show "start_scan fuel dev = Some (r', tr') \<longrightarrow>
        (\<forall>m. r' \<noteq> Raise (Exception m))
      \<and> length (filter is_connect tr') = 1
      \<and> (connect_result dev = Ret False \<longrightarrow>
           Print ''Failed to connect to the device.'' \<in> set tr')
      \<and> (\<forall>m tr0. start_scan_try fuel dev = Some (Raise (Exception m), tr0) \<longrightarrow>
           Print (''Error during scan: '' @ m) \<in> set tr')
      \<and> (\<forall>m. disconnect_result dev = Raise (Exception m) \<longrightarrow>
           Print (''Error during cleanup: '' @ m) \<in> set tr')"
  proof
    assume a: "start_scan fuel dev = Some (r', tr')"
    from start_scan_props [OF a] obtain r0 tr0 tr1 where
      t: "start_scan_try fuel dev = Some (r0, tr0)"
      and c1: "tr1 = tr0 \<and> (\<forall>m. r0 \<noteq> Raise (Exception m))
            \<or> r0 = Raise KeyboardInterrupt \<and> tr1 = tr0 @ [Print ''Scan interrupted by user.'']
            \<or> (\<exists>m. r0 = Raise (Exception m) \<and> tr1 = tr0 @ [Print (''Error during scan: '' @ m)])"
      and c2: "disconnect_result dev = Ret ()
               \<and> tr' = tr1 @ [Disconnect, Print ''Disconnected from Airview device.'', Show]
            \<or> (\<exists>m. disconnect_result dev = Raise (Exception m)
                  \<and> tr' = tr1 @ [Disconnect, Print (''Error during cleanup: '' @ m), Show])
            \<or> (\<exists>e. (\<forall>m. e \<noteq> Exception m) \<and> disconnect_result dev = Raise e
                  \<and> tr' = tr1 @ [Disconnect])"
      and r: "\<forall>m. r' \<noteq> Raise (Exception m)"
      by blast
    from start_scan_try_connects [OF t] c1 c2 have n: "length (filter is_connect tr') = 1"
      by (auto simp: is_connect_def)
    have f: "Print ''Failed to connect to the device.'' \<in> set tr'"
      if "connect_result dev = Ret False"
      using start_scan_failed_connect [OF that, of fuel] t c1 c2 by auto
    have e: "Print (''Error during scan: '' @ m) \<in> set tr'"
      if "start_scan_try fuel dev = Some (Raise (Exception m), tr0')" for m tr0'
      using that t c1 c2 by auto
    have d: "Print (''Error during cleanup: '' @ m) \<in> set tr'"
      if "disconnect_result dev = Raise (Exception m)" for m
      using that c2 by auto
    from r n f e d show "(\<forall>m. r' \<noteq> Raise (Exception m))
      \<and> length (filter is_connect tr') = 1
      \<and> (connect_result dev = Ret False \<longrightarrow>
           Print ''Failed to connect to the device.'' \<in> set tr')
      \<and> (\<forall>m tr0. start_scan_try fuel dev = Some (Raise (Exception m), tr0) \<longrightarrow>
           Print (''Error during scan: '' @ m) \<in> set tr')
      \<and> (\<forall>m. disconnect_result dev = Raise (Exception m) \<longrightarrow>
           Print (''Error during cleanup: '' @ m) \<in> set tr')"
      by blast
  qed
qed

theorem failures_reported_not_raised_witness:
  "run 0 Basic unplugged_device ''/dev/ttyACM0'' =
     Some (Ret (),
       [Connect ''/dev/ttyACM0'', Callback ''__error__'' ''Scanner error: no such port'',
        Disconnect, Callback ''__status__'' ''Disconnected''])
   \<and> run_try 0 Basic unplugged_device ''/dev/ttyACM0'' =
       Some (Raise (Exception ''no such port''), [Connect ''/dev/ttyACM0''])
   \<and> ''ERROR: Scanner error: no such port'' \<in> set (status_texts
       [Connect ''/dev/ttyACM0'', Callback ''__error__'' ''Scanner error: no such port'',
        Disconnect, Callback ''__status__'' ''Disconnected''])
   \<and> start_scan 0 unplugged_device =
     Some (Ret (),
       [Connect ''/dev/ttyACM0'', Print ''Error during scan: no such port'',
        Disconnect, Print ''Disconnected from Airview device.'', Show])
   \<and> start_scan_try 0 unplugged_device =
       Some (Raise (Exception ''no such port''), [Connect ''/dev/ttyACM0''])"
proof -
  have a: "run_try 0 Basic unplugged_device ''/dev/ttyACM0'' =
       Some (Raise (Exception ''no such port''), [Connect ''/dev/ttyACM0''])"
    by (simp add: run_try_def unplugged_device_def good_device_def)
  have b: "run 0 Basic unplugged_device ''/dev/ttyACM0'' =
     Some (Ret (),
       [Connect ''/dev/ttyACM0'', Callback ''__error__'' ''Scanner error: no such port'',
        Disconnect, Callback ''__status__'' ''Disconnected''])"
    unfolding run_def a
    by (simp add: run_except_def run_finally_def unplugged_device_def good_device_def)
  have c: "start_scan_try 0 unplugged_device =
       Some (Raise (Exception ''no such port''), [Connect ''/dev/ttyACM0''])"
    by (simp add: start_scan_try_def unplugged_device_def good_device_def)
  have d: "start_scan 0 unplugged_device =
     Some (Ret (),
       [Connect ''/dev/ttyACM0'', Print ''Error during scan: no such port'',
        Disconnect, Print ''Disconnected from Airview device.'', Show])"
    unfolding start_scan_def c
    by (simp add: start_scan_except_def start_scan_finally_def
        unplugged_device_def good_device_def)
  from a b c d
    failures_reported_not_raised [where fuel = 0 and g = Basic and dev = unplugged_device
      and port = "''/dev/ttyACM0''" and r = "Ret ()" and r' = "Ret ()" and n = 0
      and tr = "[Connect ''/dev/ttyACM0'', Callback ''__error__'' ''Scanner error: no such port'',
        Disconnect, Callback ''__status__'' ''Disconnected'']"
      and tr' = "[Connect ''/dev/ttyACM0'', Print ''Error during scan: no such port'',
        Disconnect, Print ''Disconnected from Airview device.'', Show]"
      and m' = "''x''"]
  show ?thesis
    by simp
qed

end
